theory Spec2Isabelle
  imports Main "HOL-Library.AList"
begin

section \<open>Strings\<close>

text \<open>
  A JavaScript string is modelled as a \<^typ>\<open>string\<close>, one character per code unit in the
  range 0..255. A field that is \<^verbatim>\<open>undefined\<close> in a parsed CSV record (the column is
  absent) is the empty string: every read of a field in the source is either
  \<^verbatim>\<open>(r.X || '')\<close> or \<^verbatim>\<open>parseNum(r.X)\<close>, and both treat \<^verbatim>\<open>undefined\<close> as they treat
  \<^verbatim>\<open>''\<close>.
\<close>

definition is_space :: "char \<Rightarrow> bool" where
  \<comment> \<open>white space and line terminators removed by \<^verbatim>\<open>String.prototype.trim\<close>\<close>
  "is_space c = (c \<in> set [CHR 0x09, CHR 0x0A, CHR 0x0B, CHR 0x0C, CHR 0x0D, CHR 0x20, CHR 0xA0])"

definition trim :: "string \<Rightarrow> string" where
  "trim s = rev (dropWhile is_space (rev (dropWhile is_space s)))"

section \<open>Numbers\<close>

text \<open>
  The arithmetic of JavaScript Numbers is not part of the repository. The functions below
  take it as a parameter: a record of the operations the source applies to Numbers, over a
  type \<^typ>\<open>'n\<close> of Numbers.
  \<^item> \<open>num_zero\<close> is the literal \<^verbatim>\<open>0\<close>, \<open>num_add\<close> is \<^verbatim>\<open>+\<close> on two Numbers;
  \<^item> \<open>truthy\<close> is the truth value of a Number (false for \<^verbatim>\<open>0\<close>, \<^verbatim>\<open>-0\<close> and \<^verbatim>\<open>NaN\<close>);
  \<^item> \<open>parseFloat\<close> is the global \<^verbatim>\<open>parseFloat\<close> on a string;
  \<^item> \<open>parseInt\<close> is the global \<^verbatim>\<open>parseInt\<close> applied to a Number: it yields \<^verbatim>\<open>NaN\<close>
    (\<open>None\<close>) or an integer-valued Number (\<open>Some i\<close>);
  \<^item> \<open>round_dp k x\<close> is \<^verbatim>\<open>Math.round(x * 10^k) / 10^k\<close>;
  \<^item> \<open>div_count x n\<close> is \<^verbatim>\<open>x / n\<close> for a positive count \<open>n\<close>.
\<close>

record 'n number_ops =
  num_zero :: 'n
  num_add :: "'n \<Rightarrow> 'n \<Rightarrow> 'n"
  truthy :: "'n \<Rightarrow> bool"
  parseFloat :: "string \<Rightarrow> 'n"
  parseInt :: "'n \<Rightarrow> int option"
  round_dp :: "nat \<Rightarrow> 'n \<Rightarrow> 'n"
  div_count :: "'n \<Rightarrow> nat \<Rightarrow> 'n"

definition strip_commas :: "string \<Rightarrow> string" where
  \<comment> \<open>\<^verbatim>\<open>String(s).replace(/,/g, '')\<close>\<close>
  "strip_commas s = filter (\<lambda>c. c \<noteq> CHR '','') s"

definition parseNum :: "'n number_ops \<Rightarrow> string \<Rightarrow> 'n" where
  "parseNum N s =
     (if s = [] then num_zero N
      else let v = parseFloat N (strip_commas s)
           in if truthy N v then v else num_zero N)"

definition parse_age :: "'n number_ops \<Rightarrow> string \<Rightarrow> int" where
  \<comment> \<open>\<^verbatim>\<open>parseInt(parseNum(s)) || 0\<close>\<close>
  "parse_age N s = (case parseInt N (parseNum N s) of None \<Rightarrow> 0 | Some i \<Rightarrow> i)"

text \<open>
  An instance of the operations on integers with \<open>None\<close> for \<^verbatim>\<open>NaN\<close>, where
  \<open>parseFloat\<close> reads a string of decimal digits and a quotient is rounded down. It is
  used to evaluate the definitions on concrete rows whose numeric fields are blank, strings
  of digits and commas, or without any leading digit; on those it agrees with JavaScript.
\<close>

definition digit_val :: "char \<Rightarrow> int option" where
  "digit_val c = map_of (zip ''0123456789'' [0, 1, 2, 3, 4, 5, 6, 7, 8, 9]) c"

fun read_digits :: "int \<Rightarrow> string \<Rightarrow> int option" where
  "read_digits acc [] = Some acc"
| "read_digits acc (c # cs) =
     (case digit_val c of None \<Rightarrow> None | Some d \<Rightarrow> read_digits (10 * acc + d) cs)"

definition int_ops :: "int option number_ops" where
  "int_ops = \<lparr>
     num_zero = Some 0,
     num_add = (\<lambda>a b. case (a, b) of (Some x, Some y) \<Rightarrow> Some (x + y) | _ \<Rightarrow> None),
     truthy = (\<lambda>a. case a of None \<Rightarrow> False | Some x \<Rightarrow> x \<noteq> 0),
     parseFloat = (\<lambda>s. if s = [] then None else read_digits 0 s),
     parseInt = (\<lambda>a. a),
     round_dp = (\<lambda>k a. a),
     div_count = (\<lambda>a n. case a of None \<Rightarrow> None | Some x \<Rightarrow> Some (x div int n)) \<rparr>"

section \<open>Size resolution\<close>

definition SIZE_ORDER :: "(string \<times> nat) list" where
  "SIZE_ORDER = [(''XS'', 0), (''S'', 1), (''M'', 2), (''L'', 3), (''XL'', 4),
                 (''1X'', 5), (''2X'', 6), (''3X'', 7), (''4X'', 8)]"

text \<open>
  \<^verbatim>\<open>SIZE_ORDER\<close> is an object literal, so a read \<^verbatim>\<open>SIZE_ORDER[a]\<close> of a name the literal
  does not hold goes on to \<^verbatim>\<open>Object.prototype\<close>. These are the names of the members every
  object inherits from there under Node.js; each member is a function or an object: it is
  not nullish, and as an operand of a subtraction it is \<^verbatim>\<open>NaN\<close>.
\<close>

definition Object_prototype_names :: "string list" where
  "Object_prototype_names =
     [''constructor'', ''__defineGetter__'', ''__defineSetter__'', ''hasOwnProperty'',
      ''__lookupGetter__'', ''__lookupSetter__'', ''isPrototypeOf'', ''propertyIsEnumerable'',
      ''toString'', ''valueOf'', ''__proto__'', ''toLocaleString'']"

definition size_rank :: "string \<Rightarrow> nat option" where
  \<comment> \<open>\<^verbatim>\<open>SIZE_ORDER[a] ?? 9\<close> as a number; \<open>None\<close> is \<^verbatim>\<open>NaN\<close>\<close>
  "size_rank a =
     (case map_of SIZE_ORDER a of
        Some n \<Rightarrow> Some n
      | None \<Rightarrow> if a \<in> set Object_prototype_names then None else Some 9)"

definition size_cmp :: "string \<Rightarrow> string \<Rightarrow> int option" where
  \<comment> \<open>the comparator handed to \<^verbatim>\<open>sort\<close>; \<open>None\<close> is \<^verbatim>\<open>NaN\<close>\<close>
  "size_cmp a b =
     (case (size_rank a, size_rank b) of
        (Some m, Some n) \<Rightarrow> Some (int m - int n)
      | _ \<Rightarrow> None)"

definition set_add :: "'a list \<Rightarrow> 'a \<Rightarrow> 'a list" where
  \<comment> \<open>\<^verbatim>\<open>Set.prototype.add\<close>: a Set keeps its members in insertion order\<close>
  "set_add seen x = (if x \<in> set seen then seen else seen @ [x])"

definition new_Set :: "'a list \<Rightarrow> 'a list" where
  \<comment> \<open>\<^verbatim>\<open>[...new Set(xs)]\<close>\<close>
  "new_Set xs = foldl set_add [] xs"

text \<open>
  \<^verbatim>\<open>Array.prototype.sort\<close> with a comparator, as the language defines it. The comparison of
  two elements reads a comparator result of \<^verbatim>\<open>NaN\<close> as 0. Where the comparator is a
  consistent comparison function for the elements (it never gives \<^verbatim>\<open>NaN\<close>, and its three
  outcomes are reflexive, symmetric and transitive as below), the result is fixed: the
  stable sort, in which an element goes before another one when the comparator is negative
  and elements that compare equal keep their order. Where it is not, the language leaves
  the order to the engine.
\<close>

datatype 'a engine = Fixed 'a | Engine_Defined

definition sort_compare :: "('a \<Rightarrow> 'a \<Rightarrow> int option) \<Rightarrow> 'a \<Rightarrow> 'a \<Rightarrow> int" where
  "sort_compare cmp x y = (case cmp x y of None \<Rightarrow> 0 | Some v \<Rightarrow> v)"

fun insert_by :: "('a \<Rightarrow> 'a \<Rightarrow> int option) \<Rightarrow> 'a \<Rightarrow> 'a list \<Rightarrow> 'a list" where
  "insert_by cmp x [] = [x]"
| "insert_by cmp x (y # ys) =
     (if sort_compare cmp x y \<le> 0 then x # y # ys else y # insert_by cmp x ys)"

definition sort_by :: "('a \<Rightarrow> 'a \<Rightarrow> int option) \<Rightarrow> 'a list \<Rightarrow> 'a list" where
  \<comment> \<open>a stable insertion sort under \<open>sort_compare\<close>\<close>
  "sort_by cmp xs = foldr (insert_by cmp) xs []"

definition consistent :: "('a \<Rightarrow> 'a \<Rightarrow> int option) \<Rightarrow> 'a list \<Rightarrow> bool" where
  "consistent cmp xs =
     (\<forall>a\<in>set xs. \<forall>b\<in>set xs. \<forall>c\<in>set xs.
        cmp a b \<noteq> None
      \<and> sort_compare cmp a a = 0
      \<and> (sort_compare cmp a b = 0 \<longrightarrow> sort_compare cmp b a = 0)
      \<and> (sort_compare cmp a b = 0 \<and> sort_compare cmp b c = 0 \<longrightarrow> sort_compare cmp a c = 0)
      \<and> (sort_compare cmp a b < 0 \<and> sort_compare cmp b c < 0 \<longrightarrow> sort_compare cmp a c < 0)
      \<and> (sort_compare cmp a b > 0 \<and> sort_compare cmp b c > 0 \<longrightarrow> sort_compare cmp a c > 0))"

definition js_sort :: "('a \<Rightarrow> 'a \<Rightarrow> int option) \<Rightarrow> 'a list \<Rightarrow> 'a list engine" where
  "js_sort cmp xs = (if consistent cmp xs then Fixed (sort_by cmp xs) else Engine_Defined)"

definition sortSizes :: "string list \<Rightarrow> string list engine" where
  "sortSizes sizes = js_sort size_cmp (new_Set sizes)"

section \<open>Low-value import: rows and groups\<close>

record row =
  Style :: string
  Color :: string
  Commodity :: string
  Size :: string
  Remaining_Stock :: string
  Remaining_Asset_Value :: string
  Current_Stock :: string
  Committed_Stock :: string
  Inventory_Age :: string
  Age_Bracket :: string
  Trsc_Date :: string
  PO_No :: string
  Unit_Cost :: string
  CAD_Link :: string

definition blank_row :: row where
  "blank_row = \<lparr> Style = [], Color = [], Commodity = [], Size = [], Remaining_Stock = [],
     Remaining_Asset_Value = [], Current_Stock = [], Committed_Stock = [],
     Inventory_Age = [], Age_Bracket = [], Trsc_Date = [], PO_No = [], Unit_Cost = [],
     CAD_Link = [] \<rparr>"

record 'n group =
  style :: string
  color :: string
  commodity :: string
  sizes :: "string list"
  total_remaining :: 'n
  total_value :: 'n
  total_current :: 'n
  total_committed :: 'n
  unit_cost_sum :: 'n
  cost_count :: nat
  age_days :: int
  age_bracket :: string
  trsc_date :: string
  po_no :: string
  image_url :: string

definition new_group :: "'n number_ops \<Rightarrow> string \<Rightarrow> string \<Rightarrow> 'n group" where
  "new_group N st co = \<lparr> style = st, color = co, commodity = [], sizes = [],
     total_remaining = num_zero N, total_value = num_zero N,
     total_current = num_zero N, total_committed = num_zero N,
     unit_cost_sum = num_zero N, cost_count = 0,
     age_days = 0, age_bracket = [], trsc_date = [], po_no = [], image_url = [] \<rparr>"

text \<open>
  \<open>catalogImages\<close> is the object built from the rows of the \<^verbatim>\<open>catalog_images\<close> table before
  the fold: a map from style to image reference. The map holds the properties the object
  was given. For a style in \<open>Object_prototype_names\<close> the read \<^verbatim>\<open>catalogImages[style]\<close> of
  the source gives an inherited member where the object was given no such property (and
  always for \<^verbatim>\<open>__proto__\<close>); the map gives no entry there, and no general statement below is
  made for a group of such a style.
\<close>

type_synonym catalog = "string \<rightharpoonup> string"

definition or_else :: "string \<Rightarrow> string \<Rightarrow> string" where
  \<comment> \<open>\<^verbatim>\<open>a || b\<close> on strings: the empty string is falsy\<close>
  "or_else a b = (if a \<noteq> [] then a else b)"

definition resolve_image :: "catalog \<Rightarrow> string \<Rightarrow> string \<Rightarrow> string \<Rightarrow> string" where
  \<comment> \<open>the image step of one row: \<open>st\<close> is the row's trimmed style, \<open>cad\<close> its trimmed link\<close>
  "resolve_image catalogImages st cad cur =
     (if cad \<noteq> [] then cad
      else case catalogImages st of
             None \<Rightarrow> cur
           | Some u \<Rightarrow> if cur = [] \<and> u \<noteq> [] then u else cur)"

definition merge_row :: "'n number_ops \<Rightarrow> catalog \<Rightarrow> 'n group \<Rightarrow> row \<Rightarrow> 'n group" where
  "merge_row N catalogImages d r =
     (let age = parse_age N (Inventory_Age r);
          older = (age > age_days d)
      in d \<lparr> commodity := or_else (trim (Commodity r)) (commodity d),
             image_url := resolve_image catalogImages (trim (Style r)) (trim (CAD_Link r))
                            (image_url d),
             sizes := sizes d @ [trim (Size r)],
             total_remaining := num_add N (total_remaining d) (parseNum N (Remaining_Stock r)),
             total_value := num_add N (total_value d) (parseNum N (Remaining_Asset_Value r)),
             total_current := num_add N (total_current d) (parseNum N (Current_Stock r)),
             total_committed := num_add N (total_committed d) (parseNum N (Committed_Stock r)),
             age_days := (if older then age else age_days d),
             age_bracket := (if older then trim (Age_Bracket r) else age_bracket d),
             trsc_date := (if older then trim (Trsc_Date r) else trsc_date d),
             po_no := or_else (trim (PO_No r)) (po_no d),
             unit_cost_sum := num_add N (unit_cost_sum d) (parseNum N (Unit_Cost r)),
             cost_count := cost_count d + 1 \<rparr>)"

definition has_style :: "row \<Rightarrow> bool" where
  \<comment> \<open>the row is not skipped by \<^verbatim>\<open>if (!style) continue\<close>\<close>
  "has_style r = (trim (Style r) \<noteq> [])"

definition group_key :: "row \<Rightarrow> string" where
  "group_key r = trim (Style r) @ ''|'' @ trim (Color r)"

text \<open>
  \<open>grouped\<close> is an object with string keys, none of them an array index (each key holds a
  \<^verbatim>\<open>|\<close>): its entries are kept, and enumerated by \<^verbatim>\<open>Object.values\<close>, in insertion order. It
  is an association list; \<^const>\<open>AList.update\<close> replaces the value of a present key in place
  and appends an absent one.
\<close>

type_synonym 'n grouped = "(string \<times> 'n group) list"

definition step :: "'n number_ops \<Rightarrow> catalog \<Rightarrow> 'n grouped \<Rightarrow> row \<Rightarrow> 'n grouped" where
  "step N catalogImages grouped r =
     (if \<not> has_style r then grouped
      else let key = group_key r;
               d = (case map_of grouped key of
                      None \<Rightarrow> new_group N (trim (Style r)) (trim (Color r))
                    | Some d \<Rightarrow> d)
           in AList.update key (merge_row N catalogImages d r) grouped)"

definition rollup :: "'n number_ops \<Rightarrow> catalog \<Rightarrow> row list \<Rightarrow> 'n grouped" where
  "rollup N catalogImages rows = foldl (step N catalogImages) [] rows"

definition group_rows :: "string \<Rightarrow> row list \<Rightarrow> row list" where
  \<comment> \<open>the rows folded into the group stored under \<open>key\<close>, in input order\<close>
  "group_rows key rows = filter (\<lambda>r. has_style r \<and> group_key r = key) rows"

section \<open>Low-value import: persistence\<close>

text \<open>
  The two tables of the store. A \<^verbatim>\<open>catalog_images\<close> row is keyed by its style (the column
  is \<^verbatim>\<open>UNIQUE\<close>), so the table is a map from style to image reference; both writers of
  the table store a style that is not null and an image that is not blank. The
  \<^verbatim>\<open>image_url\<close> column of \<^verbatim>\<open>aged_inventory\<close> is nullable: \<open>None\<close> is \<^verbatim>\<open>NULL\<close>. The store
  itself (its transactions, its limits on column width) is a collaborator and accepts
  every write.
\<close>

record 'n aged_row =
  ai_style :: string
  ai_color :: string
  ai_commodity :: string
  ai_sizes :: "string engine"
  ai_total_remaining :: 'n
  ai_total_value :: 'n
  ai_total_current :: 'n
  ai_total_committed :: 'n
  ai_unit_cost_avg :: 'n
  ai_age_days :: int
  ai_age_bracket :: string
  ai_trsc_date :: string
  ai_po_no :: string
  ai_image_url :: "string option"
  ai_flagged :: bool

datatype log_entry =
    Log_No_Catalog_Url
  | Log_Syncing
  | Log_No_Images
  | Log_Synced nat
  | Log_Sync_Error string
  | Log_Imported nat nat
  | Log_Catalog_Import nat
  | Log_Missing_Credentials
  | Log_Token_Refreshed
  | Log_Refresh_Failed
  | Log_Token_Error string

record 'n system =
  aged_inventory :: "'n aged_row list"
  catalog_images :: catalog
  console :: "log_entry list"

fun join :: "string \<Rightarrow> string list \<Rightarrow> string" where
  "join sep [] = []"
| "join sep [x] = x"
| "join sep (x # y # ys) = x @ sep @ join sep (y # ys)"

definition insert_values :: "'n number_ops \<Rightarrow> 'n group \<Rightarrow> 'n aged_row" where
  \<comment> \<open>the row written by \<^verbatim>\<open>INSERT INTO aged_inventory\<close> for one group\<close>
  "insert_values N d =
     (let unitCost = (if cost_count d > 0 then div_count N (unit_cost_sum d) (cost_count d)
                      else num_zero N)
      in \<lparr> ai_style = style d, ai_color = color d, ai_commodity = commodity d,
           ai_sizes = map_engine (join '', '') (sortSizes (sizes d)),
           ai_total_remaining = total_remaining d,
           ai_total_value = round_dp N 2 (total_value d),
           ai_total_current = total_current d,
           ai_total_committed = total_committed d,
           ai_unit_cost_avg = round_dp N 4 unitCost,
           ai_age_days = age_days d, ai_age_bracket = age_bracket d,
           ai_trsc_date = trsc_date d, ai_po_no = po_no d,
           ai_image_url = Some (image_url d), ai_flagged = False \<rparr>)"

record import_response =
  resp_rows :: nat
  resp_records :: nat

definition import_low_value ::
  "'n number_ops \<Rightarrow> row list \<Rightarrow> 'n system \<Rightarrow> import_response \<times> 'n system" where
  \<comment> \<open>the handler of \<^verbatim>\<open>POST /api/import/low-value\<close>, from the parsed rows on\<close>
  "import_low_value N rows st =
     (let catalogImages = catalog_images st;
          grouped = rollup N catalogImages rows;
          inserted = map (\<lambda>(key, d). insert_values N d) grouped;
          count = length inserted
      in (\<lparr> resp_rows = length rows, resp_records = count \<rparr>,
          st \<lparr> aged_inventory := inserted,
               console := console st @ [Log_Imported (length rows) count] \<rparr>))"

section \<open>Catalog cache: upsert and backfill\<close>

definition is_blank :: "string option \<Rightarrow> bool" where
  \<comment> \<open>\<^verbatim>\<open>image_url IS NULL OR image_url = ''\<close>\<close>
  "is_blank u = (case u of None \<Rightarrow> True | Some s \<Rightarrow> s = [])"

definition backfill_row :: "catalog \<Rightarrow> 'n aged_row \<Rightarrow> 'n aged_row" where
  "backfill_row ci ai =
     (if is_blank (ai_image_url ai)
      then (case ci (ai_style ai) of
              None \<Rightarrow> ai
            | Some u \<Rightarrow> ai \<lparr> ai_image_url := Some u \<rparr>)
      else ai)"

definition backfill :: "'n system \<Rightarrow> 'n system" where
  \<comment> \<open>\<^verbatim>\<open>UPDATE aged_inventory ai SET image_url = ci.image_url FROM catalog_images ci WHERE ...\<close>\<close>
  "backfill st = st \<lparr> aged_inventory := map (backfill_row (catalog_images st)) (aged_inventory st) \<rparr>"

definition upsert :: "string \<Rightarrow> string \<Rightarrow> 'n system \<Rightarrow> 'n system" where
  \<comment> \<open>\<^verbatim>\<open>INSERT INTO catalog_images ... ON CONFLICT (style) DO UPDATE SET image_url = $2\<close>\<close>
  "upsert st_name url st = st \<lparr> catalog_images := (catalog_images st)(st_name \<mapsto> url) \<rparr>"

record catalog_row =
  Style_Name :: string
  Style_Image :: string

definition starts_with :: "string \<Rightarrow> string \<Rightarrow> bool" where
  "starts_with s p = (take (length p) s = p)"

definition catalog_step :: "'n system \<times> nat \<Rightarrow> catalog_row \<Rightarrow> 'n system \<times> nat" where
  "catalog_step acc r =
     (let st_name = trim (Style_Name r); img = trim (Style_Image r)
      in if st_name = [] \<or> starts_with st_name ''Grand'' \<or> img = [] then acc
         else (upsert st_name img (fst acc), snd acc + 1))"

definition import_catalog :: "catalog_row list \<Rightarrow> 'n system \<Rightarrow> nat \<times> 'n system" where
  \<comment> \<open>the handler of \<^verbatim>\<open>POST /api/import/catalog\<close>, from the parsed rows on\<close>
  "import_catalog rows st =
     (let (st1, count) = foldl catalog_step (st, 0) rows;
          st2 = backfill st1
      in (count, st2 \<lparr> console := console st2 @ [Log_Catalog_Import count] \<rparr>))"

section \<open>Catalog synchronisation\<close>

text \<open>
  What awaiting a call to a collaborator gives: the promise is rejected with a message or
  fulfilled with a value.
\<close>

datatype 'a attempt = Raised string | Done 'a

record product =
  base_style :: "string option"
  product_image_url :: "string option"

definition is_set :: "string option \<Rightarrow> bool" where
  \<comment> \<open>the truth value of a string that may be \<^verbatim>\<open>null\<close> or \<^verbatim>\<open>undefined\<close>\<close>
  "is_set v = (case v of None \<Rightarrow> False | Some s \<Rightarrow> s \<noteq> [])"

definition sync_step :: "'n system \<times> nat \<Rightarrow> product \<Rightarrow> 'n system \<times> nat" where
  "sync_step acc p =
     (case (base_style p, product_image_url p) of
        (Some b, Some u) \<Rightarrow>
          if b = [] \<or> u = [] then acc else (upsert (trim b) u (fst acc), snd acc + 1)
      | _ \<Rightarrow> acc)"

definition say :: "log_entry \<Rightarrow> 'n system \<Rightarrow> 'n system" where
  "say e st = st \<lparr> console := console st @ [e] \<rparr>"

definition sync_body :: "product list attempt \<Rightarrow> 'n system \<Rightarrow> unit attempt \<times> 'n system" where
  \<comment> \<open>the \<^verbatim>\<open>try\<close> block of \<^verbatim>\<open>syncCatalogImages\<close>; the argument is what the query of the
      catalog's \<^verbatim>\<open>products\<close> gives\<close>
  "sync_body answer st =
     (let st0 = say Log_Syncing st
      in case answer of
           Raised msg \<Rightarrow> (Raised msg, st0)
         | Done rows \<Rightarrow>
             if length rows = 0 then (Done (), say Log_No_Images st0)
             else let (st1, synced) = foldl sync_step (st0, 0) rows
                  in (Done (), say (Log_Synced synced) (backfill st1)))"

definition syncCatalogImages ::
  "product list attempt option \<Rightarrow> 'n system \<Rightarrow> unit attempt \<times> 'n system" where
  \<comment> \<open>the first argument is \<open>None\<close> when \<^verbatim>\<open>catalogPool\<close> is \<^verbatim>\<open>null\<close>\<close>
  "syncCatalogImages catalogPool st =
     (case catalogPool of
        None \<Rightarrow> (Done (), say Log_No_Catalog_Url st)
      | Some answer \<Rightarrow>
          (case sync_body answer st of
             (Raised msg, st1) \<Rightarrow> (Done (), say (Log_Sync_Error msg) st1)
           | (Done u, st1) \<Rightarrow> (Done u, st1)))"

section \<open>Credential cache\<close>

record token_cache =
  zohoAccessToken :: "string option"
  tokenExpiry :: "int option"

definition initial_cache :: token_cache where
  "initial_cache = \<lparr> zohoAccessToken = None, tokenExpiry = Some 0 \<rparr>"

record token_response =
  access_token :: "string option"
  expires_in :: "int option"

datatype call = Token_Query | Token_Exchange string string string

text \<open>
  What the function reads from outside: the environment variables, the answer of the query
  of \<^verbatim>\<open>zoho_tokens\<close> (its rows hold the nullable \<^verbatim>\<open>refresh_token\<close>; no answer when
  \<^verbatim>\<open>catalogPool\<close> is \<^verbatim>\<open>null\<close>), the issuer's answer to the exchange, and the two readings of
  \<^verbatim>\<open>Date.now()\<close>, in milliseconds. A tokenExpiry of \<open>None\<close> is \<^verbatim>\<open>NaN\<close>, which compares
  false with every time.
\<close>

record outside =
  ZOHO_REFRESH_TOKEN :: "string option"
  ZOHO_CLIENT_ID :: "string option"
  ZOHO_CLIENT_SECRET :: "string option"
  zoho_tokens :: "string option list attempt option"
  issuer :: "token_response attempt"
  now_at_check :: int
  now_at_refresh :: int

record token_result =
  returned :: "string option attempt"
  cache :: token_cache
  calls :: "call list"
  logged :: "log_entry list"

definition cache_valid :: "token_cache \<Rightarrow> int \<Rightarrow> bool" where
  \<comment> \<open>\<^verbatim>\<open>zohoAccessToken && Date.now() < tokenExpiry\<close>\<close>
  "cache_valid c now =
     (is_set (zohoAccessToken c) \<and> (case tokenExpiry c of None \<Rightarrow> False | Some e \<Rightarrow> now < e))"

definition lookup_refresh_token :: "outside \<Rightarrow> (string option \<times> call list) attempt" where
  \<comment> \<open>step 1 of the \<^verbatim>\<open>try\<close> block: the refresh token and the calls made for it\<close>
  "lookup_refresh_token out =
     (case zoho_tokens out of
        None \<Rightarrow> Done (ZOHO_REFRESH_TOKEN out, [])
      | Some answer \<Rightarrow>
          if is_set (ZOHO_REFRESH_TOKEN out) then Done (ZOHO_REFRESH_TOKEN out, [])
          else (case answer of
                  Raised msg \<Rightarrow> Raised msg
                | Done rows \<Rightarrow>
                    Done (case rows of [] \<Rightarrow> ZOHO_REFRESH_TOKEN out | r # _ \<Rightarrow> r,
                          [Token_Query])))"

definition refresh_body :: "outside \<Rightarrow> token_cache \<Rightarrow> token_result" where
  \<comment> \<open>the \<^verbatim>\<open>try\<close> block of \<^verbatim>\<open>getZohoAccessToken\<close>\<close>
  "refresh_body out c =
     (case lookup_refresh_token out of
        Raised msg \<Rightarrow>
          \<lparr> returned = Raised msg, cache = c, calls = [Token_Query], logged = [] \<rparr>
      | Done (refreshToken, qs) \<Rightarrow>
          (case (refreshToken, ZOHO_CLIENT_ID out, ZOHO_CLIENT_SECRET out) of
             (Some rt, Some cid, Some secret) \<Rightarrow>
               if rt = [] \<or> cid = [] \<or> secret = []
               then \<lparr> returned = Done None, cache = c, calls = qs,
                      logged = [Log_Missing_Credentials] \<rparr>
               else
                 (let cs = qs @ [Token_Exchange rt cid secret]
                  in case issuer out of
                       Raised msg \<Rightarrow>
                         \<lparr> returned = Raised msg, cache = c, calls = cs, logged = [] \<rparr>
                     | Done data \<Rightarrow>
                         if is_set (access_token data)
                         then \<lparr> returned = Done (access_token data),
                                cache = \<lparr> zohoAccessToken = access_token data,
                                          tokenExpiry =
                                            (case expires_in data of
                                               None \<Rightarrow> None
                                             | Some secs \<Rightarrow>
                                                 Some (now_at_refresh out + (secs - 60) * 1000)) \<rparr>,
                                calls = cs, logged = [Log_Token_Refreshed] \<rparr>
                         else \<lparr> returned = Done None, cache = c, calls = cs,
                                logged = [Log_Refresh_Failed] \<rparr>)
           | _ \<Rightarrow> \<lparr> returned = Done None, cache = c, calls = qs,
                    logged = [Log_Missing_Credentials] \<rparr>))"

definition getZohoAccessToken :: "outside \<Rightarrow> token_cache \<Rightarrow> token_result" where
  "getZohoAccessToken out c =
     (if cache_valid c (now_at_check out)
      then \<lparr> returned = Done (zohoAccessToken c), cache = c, calls = [], logged = [] \<rparr>
      else (let res = refresh_body out c
            in case returned res of
                 Raised msg \<Rightarrow>
                   res \<lparr> returned := Done None, logged := logged res @ [Log_Token_Error msg] \<rparr>
               | Done v \<Rightarrow> res))"

section \<open>Notions used by the statements\<close>

text \<open>
  The parsed age of a row, the three values a group takes from a row, and the three values
  a group holds.
\<close>

definition row_age :: "'n number_ops \<Rightarrow> row \<Rightarrow> int" where
  "row_age N r = parse_age N (Inventory_Age r)"

definition trio :: "'n group \<Rightarrow> int \<times> string \<times> string" where
  "trio d = (age_days d, age_bracket d, trsc_date d)"

definition row_trio :: "'n number_ops \<Rightarrow> row \<Rightarrow> int \<times> string \<times> string" where
  "row_trio N r = (row_age N r, trim (Age_Bracket r), trim (Trsc_Date r))"

text \<open>
  The rank of a token in the table of sizes, 9 for a token the table does not hold.
\<close>

definition table_rank :: "string \<Rightarrow> nat" where
  "table_rank a = (case map_of SIZE_ORDER a of None \<Rightarrow> 9 | Some n \<Rightarrow> n)"

text \<open>
  The first row, in input order, whose parsed age is the greatest of the list.
\<close>

definition oldest_row :: "'n number_ops \<Rightarrow> row list \<Rightarrow> row option" where
  "oldest_row N rs = find (\<lambda>r. \<forall>r' \<in> set rs. row_age N r' \<le> row_age N r) rs"

text \<open>
  The first and the last non-blank string of a list; \<open>first_nonblank\<close> follows the words of
  the specification of the commodity.
\<close>

definition first_nonblank :: "string list \<Rightarrow> string option" where
  "first_nonblank xs = find (\<lambda>s. s \<noteq> []) xs"

definition last_nonblank :: "string list \<Rightarrow> string" where
  "last_nonblank xs = (case filter (\<lambda>s. s \<noteq> []) xs of [] \<Rightarrow> [] | c # cs \<Rightarrow> last (c # cs))"

text \<open>
  The distinct pairs of trimmed style and trimmed colour among the rows with a style, in the
  words of the specification of the grouping key.
\<close>

definition distinct_pairs :: "row list \<Rightarrow> (string \<times> string) list" where
  "distinct_pairs rows = remdups (map (\<lambda>r. (trim (Style r), trim (Color r))) (filter has_style rows))"

definition empty_system :: "'n system" where
  "empty_system = \<lparr> aged_inventory = [], catalog_images = Map.empty, console = [] \<rparr>"

text \<open>
  A scenario of three rows of one style and colour, and the group the import makes of it.
\<close>

definition scenario_rows :: "row list" where
  "scenario_rows =
     [blank_row \<lparr> Style := ''ABC123'', Color := ''Black'', Size := ''M'',
          Remaining_Stock := ''10'', Remaining_Asset_Value := ''50'', Current_Stock := ''1,200'',
          Committed_Stock := ''abc'', Inventory_Age := ''400'', Age_Bracket := ''1 year'',
          Trsc_Date := ''2023-01-05'', Unit_Cost := ''5'' \<rparr>,
      blank_row \<lparr> Style := '' ABC123'', Color := ''Black '', Commodity := ''Tops'', Size := ''L'',
          Remaining_Stock := ''5'', Remaining_Asset_Value := ''25'', Current_Stock := ''300'',
          Committed_Stock := ''2'', Inventory_Age := ''430'', Age_Bracket := ''1 year+'',
          Trsc_Date := ''2022-12-01'', Unit_Cost := ''7'', CAD_Link := ''http://cad/abc.jpg'' \<rparr>,
      blank_row \<lparr> Style := ''ABC123'', Color := ''Black'', Commodity := ''Dresses'', Size := '' '',
          Inventory_Age := ''430'', Age_Bracket := ''2 years'', Trsc_Date := ''2022-11-30'' \<rparr>]"

definition scenario_group :: "int option group" where
  "scenario_group = \<lparr> style = ''ABC123'', color = ''Black'', commodity = ''Dresses'',
     sizes = [''M'', ''L'', []],
     total_remaining = Some 15, total_value = Some 75, total_current = Some 1500,
     total_committed = Some 2, unit_cost_sum = Some 12, cost_count = 3,
     age_days = 430, age_bracket = ''1 year+'', trsc_date = ''2022-12-01'', po_no = [],
     image_url = ''http://cad/abc.jpg'' \<rparr>"

text \<open>
  A store of three persisted aggregates and one catalog entry.
\<close>

definition example_aged :: "string \<Rightarrow> string option \<Rightarrow> int option aged_row" where
  "example_aged st img = \<lparr> ai_style = st, ai_color = ''Black'', ai_commodity = [],
     ai_sizes = Fixed ''M'', ai_total_remaining = Some 1, ai_total_value = Some 1,
     ai_total_current = Some 1, ai_total_committed = Some 0, ai_unit_cost_avg = Some 1,
     ai_age_days = 1, ai_age_bracket = [], ai_trsc_date = [], ai_po_no = [],
     ai_image_url = img, ai_flagged = True \<rparr>"

definition example_system :: "int option system" where
  "example_system = \<lparr>
     aged_inventory = [example_aged ''A1'' None, example_aged ''A1'' (Some ''http://a/1.jpg''),
                       example_aged ''B2'' (Some [])],
     catalog_images = [''A1'' \<mapsto> ''http://b/2.jpg''],
     console = [] \<rparr>"

text \<open>
  A configuration without \<^verbatim>\<open>ZOHO_REFRESH_TOKEN\<close>, whose token store holds one refresh token
  and whose issuer answers with a token valid for an hour; and a cache whose token expired.
\<close>

definition example_outside :: outside where
  "example_outside = \<lparr> ZOHO_REFRESH_TOKEN = None, ZOHO_CLIENT_ID = Some ''id'',
     ZOHO_CLIENT_SECRET = Some ''secret'',
     zoho_tokens = Some (Done [Some ''refresh'']),
     issuer = Done \<lparr> access_token = Some ''tok2'', expires_in = Some 3600 \<rparr>,
     now_at_check = 5000, now_at_refresh = 5200 \<rparr>"

definition example_cache :: token_cache where
  "example_cache = \<lparr> zohoAccessToken = Some ''tok1'', tokenExpiry = Some 4000 \<rparr>"

section \<open>Size resolution: properties\<close>

lemma set_foldl_set_add: "set (foldl set_add acc xs) = set acc \<union> set xs"
  by (induction xs arbitrary: acc) (auto simp: set_add_def)

lemma distinct_foldl_set_add: "distinct acc \<Longrightarrow> distinct (foldl set_add acc xs)"
  by (induction xs arbitrary: acc) (auto simp: set_add_def)

lemma filter_foldl_set_add:
  "filter P (foldl set_add acc xs) = foldl set_add (filter P acc) (filter P xs)"
  by (induction xs arbitrary: acc) (auto simp: set_add_def)

lemma set_new_Set: "set (new_Set xs) = set xs"
  by (simp add: new_Set_def set_foldl_set_add)

lemma distinct_new_Set: "distinct (new_Set xs)"
  by (simp add: new_Set_def distinct_foldl_set_add)

lemma filter_new_Set: "filter P (new_Set xs) = new_Set (filter P xs)"
  by (simp add: new_Set_def filter_foldl_set_add)

lemma sorted_split:
  fixes f :: "'a \<Rightarrow> nat"
  shows "sorted (map f xs) \<Longrightarrow> xs = filter (\<lambda>a. f a < k) xs @ filter (\<lambda>a. \<not> f a < k) xs"
proof (induction xs)
  case Nil
  then show ?case by simp
next
  case (Cons x xs)
  show ?case
  proof (cases "f x < k")
    case True
    with Cons show ?thesis by simp
  next
    case False
    with Cons.prems have "\<forall>y\<in>set xs. \<not> f y < k" by auto
    then have "filter (\<lambda>a. f a < k) xs = []" "filter (\<lambda>a. \<not> f a < k) xs = xs"
      by (simp_all add: filter_empty_conv filter_id_conv)
    with False show ?thesis by simp
  qed
qed

lemma insert_by_insort:
  "\<forall>y\<in>set ys. sort_compare cmp x y = int (f x) - int (f y) \<Longrightarrow>
   insert_by cmp x ys = insort_key f x ys"
  by (induction ys) auto

lemma sort_by_sort_key:
  "\<forall>x\<in>set xs. \<forall>y\<in>set xs. sort_compare cmp x y = int (f x) - int (f y) \<Longrightarrow>
   sort_by cmp xs = sort_key f xs"
proof (induction xs)
  case Nil
  then show ?case by (simp add: sort_by_def)
next
  case (Cons x xs)
  then have "sort_by cmp xs = sort_key f xs" by simp
  moreover from Cons.prems
  have "insert_by cmp x (sort_key f xs) = insort_key f x (sort_key f xs)"
    by (intro insert_by_insort) simp
  ultimately show ?case by (simp add: sort_by_def)
qed

lemma size_rank_plain: "a \<notin> set Object_prototype_names \<Longrightarrow> size_rank a = Some (table_rank a)"
  by (simp add: size_rank_def table_rank_def split: option.splits)

lemma inherited_not_in_table: "\<forall>a\<in>set Object_prototype_names. map_of SIZE_ORDER a = None"
  by (simp add: SIZE_ORDER_def Object_prototype_names_def)

lemma size_rank_inherited: "a \<in> set Object_prototype_names \<Longrightarrow> size_rank a = None"
  using inherited_not_in_table by (simp add: size_rank_def)

lemma sort_compare_plain:
  assumes "a \<notin> set Object_prototype_names" "b \<notin> set Object_prototype_names"
  shows "size_cmp a b = Some (int (table_rank a) - int (table_rank b))"
    and "sort_compare size_cmp a b = int (table_rank a) - int (table_rank b)"
  using assms by (simp_all add: size_cmp_def sort_compare_def size_rank_plain)

text \<open>
  The comparator of the sizes is a consistent comparison function for a list of tokens
  exactly when no token names an inherited member.
\<close>

lemma consistent_size_cmp:
  "consistent size_cmp xs \<longleftrightarrow> (\<forall>a\<in>set xs. a \<notin> set Object_prototype_names)"
proof
  assume c: "consistent size_cmp xs"
  show "\<forall>a\<in>set xs. a \<notin> set Object_prototype_names"
  proof
    fix a assume a: "a \<in> set xs"
    with c have "size_cmp a a \<noteq> None" unfolding consistent_def by blast
    then show "a \<notin> set Object_prototype_names"
      by (auto simp: size_cmp_def dest: size_rank_inherited)
  qed
next
  assume plain: "\<forall>a\<in>set xs. a \<notin> set Object_prototype_names"
  show "consistent size_cmp xs"
    unfolding consistent_def
  proof (intro ballI)
    fix a b c assume "a \<in> set xs" "b \<in> set xs" "c \<in> set xs"
    with plain have p: "a \<notin> set Object_prototype_names" "b \<notin> set Object_prototype_names"
      "c \<notin> set Object_prototype_names"
      by simp_all
    have n: "size_cmp a b \<noteq> None"
      by (simp add: sort_compare_plain(1) [OF p(1) p(2)])
    note e = sort_compare_plain(2) [OF p(1) p(1)] sort_compare_plain(2) [OF p(1) p(2)]
      sort_compare_plain(2) [OF p(2) p(1)] sort_compare_plain(2) [OF p(2) p(3)]
      sort_compare_plain(2) [OF p(1) p(3)]
    have "sort_compare size_cmp a a = 0
      \<and> (sort_compare size_cmp a b = 0 \<longrightarrow> sort_compare size_cmp b a = 0)
      \<and> (sort_compare size_cmp a b = 0 \<and> sort_compare size_cmp b c = 0
           \<longrightarrow> sort_compare size_cmp a c = 0)
      \<and> (sort_compare size_cmp a b < 0 \<and> sort_compare size_cmp b c < 0
           \<longrightarrow> sort_compare size_cmp a c < 0)
      \<and> (sort_compare size_cmp a b > 0 \<and> sort_compare size_cmp b c > 0
           \<longrightarrow> sort_compare size_cmp a c > 0)"
      unfolding e by arith
    with n show "size_cmp a b \<noteq> None
      \<and> sort_compare size_cmp a a = 0
      \<and> (sort_compare size_cmp a b = 0 \<longrightarrow> sort_compare size_cmp b a = 0)
      \<and> (sort_compare size_cmp a b = 0 \<and> sort_compare size_cmp b c = 0
           \<longrightarrow> sort_compare size_cmp a c = 0)
      \<and> (sort_compare size_cmp a b < 0 \<and> sort_compare size_cmp b c < 0
           \<longrightarrow> sort_compare size_cmp a c < 0)
      \<and> (sort_compare size_cmp a b > 0 \<and> sort_compare size_cmp b c > 0
           \<longrightarrow> sort_compare size_cmp a c > 0)"
      by blast
  qed
qed

lemma sortSizes_plain:
  assumes "\<forall>a\<in>set xs. a \<notin> set Object_prototype_names"
  shows "sortSizes xs = Fixed (sort_key table_rank (new_Set xs))"
proof -
  have s: "set (new_Set xs) = set xs"
    by (simp add: new_Set_def set_foldl_set_add)
  with assms have "consistent size_cmp (new_Set xs)"
    by (simp add: consistent_size_cmp)
  moreover from assms s have "sort_by size_cmp (new_Set xs) = sort_key table_rank (new_Set xs)"
    by (intro sort_by_sort_key) (simp add: sort_compare_plain)
  ultimately show ?thesis by (simp add: sortSizes_def js_sort_def)
qed

lemma sortSizes_inherited:
  assumes "a \<in> set xs" "a \<in> set Object_prototype_names"
  shows "sortSizes xs = Engine_Defined"
proof -
  from assms(1) have "a \<in> set (new_Set xs)"
    by (simp add: new_Set_def set_foldl_set_add)
  with assms(2) have "\<not> consistent size_cmp (new_Set xs)"
    by (auto simp: consistent_size_cmp)
  then show ?thesis by (simp add: sortSizes_def js_sort_def)
qed

lemma table_rank_le: "table_rank a \<le> 9"
  by (auto simp: table_rank_def SIZE_ORDER_def)

lemma table_rank_unknown: "a \<notin> set (map fst SIZE_ORDER) \<Longrightarrow> table_rank a = 9"
  by (auto simp: table_rank_def SIZE_ORDER_def)

text \<open>
  Size resolution on tokens none of which names an inherited member: the result is fixed,
  it holds every token once, it is ordered by the rank of the table, where the ranks of
  \<^verbatim>\<open>XS, S, M, L, XL, 1X, 2X, 3X, 4X\<close> are 0 to 8 in this order and every other token has rank
  9, and the tokens of rank 9 stand in the order of their first appearance.
\<close>

lemma sortSizes_plain_tokens:
  assumes "\<forall>a\<in>set xs. a \<notin> set Object_prototype_names"
  shows "\<exists>ys. sortSizes xs = Fixed ys
           \<and> distinct ys \<and> set ys = set xs \<and> sorted (map table_rank ys)
           \<and> filter (\<lambda>a. table_rank a = 9) ys = new_Set (filter (\<lambda>a. table_rank a = 9) xs)"
    and "map table_rank [''XS'', ''S'', ''M'', ''L'', ''XL'', ''1X'', ''2X'', ''3X'', ''4X'']
           = [0, 1, 2, 3, 4, 5, 6, 7, 8]"
    and "a \<notin> set [''XS'', ''S'', ''M'', ''L'', ''XL'', ''1X'', ''2X'', ''3X'', ''4X'']
           \<Longrightarrow> table_rank a = 9"
proof -
  let ?ys = "sort_key table_rank (new_Set xs)"
  have "sortSizes xs = Fixed ?ys" using assms by (rule sortSizes_plain)
  moreover have "distinct ?ys" "set ?ys = set xs" "sorted (map table_rank ?ys)"
    by (simp_all add: distinct_new_Set set_new_Set)
  moreover have "filter (\<lambda>a. table_rank a = 9) ?ys = new_Set (filter (\<lambda>a. table_rank a = 9) xs)"
    by (simp add: sort_key_stable filter_new_Set)
  ultimately show "\<exists>ys. sortSizes xs = Fixed ys
           \<and> distinct ys \<and> set ys = set xs \<and> sorted (map table_rank ys)
           \<and> filter (\<lambda>a. table_rank a = 9) ys = new_Set (filter (\<lambda>a. table_rank a = 9) xs)"
    by blast
  show "map table_rank [''XS'', ''S'', ''M'', ''L'', ''XL'', ''1X'', ''2X'', ''3X'', ''4X'']
           = [0, 1, 2, 3, 4, 5, 6, 7, 8]"
    by (simp add: table_rank_def SIZE_ORDER_def)
  show "a \<notin> set [''XS'', ''S'', ''M'', ''L'', ''XL'', ''1X'', ''2X'', ''3X'', ''4X'']
           \<Longrightarrow> table_rank a = 9"
    using table_rank_unknown [of a] by (simp add: SIZE_ORDER_def)
qed

lemma sortSizes_example: "sortSizes [''L'', ''M'', ''L'', ''Q''] = Fixed [''M'', ''L'', ''Q'']"
proof -
  have "\<forall>a\<in>set [''L'', ''M'', ''L'', ''Q'']. a \<notin> set Object_prototype_names"
    by (simp add: Object_prototype_names_def)
  then have "sortSizes [''L'', ''M'', ''L'', ''Q'']
      = Fixed (sort_key table_rank (new_Set [''L'', ''M'', ''L'', ''Q'']))"
    by (rule sortSizes_plain)
  then show ?thesis
    by (simp add: new_Set_def set_add_def table_rank_def SIZE_ORDER_def)
qed

text \<open>
  Claim C5 says that for every list of tokens \<^verbatim>\<open>sortSizes\<close> puts the tokens outside the table
  after all the known sizes. The token \<^verbatim>\<open>constructor\<close> is outside the table and names an
  inherited member: its rank is \<^verbatim>\<open>NaN\<close>, and so is the comparator on it and \<^verbatim>\<open>M\<close>, in both
  directions. The comparator is then no consistent comparison function, the language fixes
  no order for \<^verbatim>\<open>["constructor","M"]\<close>, and a stable sort that reads \<^verbatim>\<open>NaN\<close> as 0 leaves the
  list as it is, \<^verbatim>\<open>constructor\<close> before the known size \<^verbatim>\<open>M\<close>.
\<close>

theorem sortSizes_inherited_member:
  "table_rank ''constructor'' = 9
   \<and> size_rank ''constructor'' = None
   \<and> size_cmp ''M'' ''constructor'' = None
   \<and> size_cmp ''constructor'' ''M'' = None
   \<and> sortSizes [''constructor'', ''M''] = Engine_Defined
   \<and> sort_by size_cmp [''constructor'', ''M''] = [''constructor'', ''M'']"
proof -
  have r: "size_rank ''constructor'' = None"
    by (rule size_rank_inherited) (simp add: Object_prototype_names_def)
  have t: "table_rank ''constructor'' = 9"
    by (simp add: table_rank_def SIZE_ORDER_def)
  from r have c: "size_cmp ''M'' ''constructor'' = None" "size_cmp ''constructor'' ''M'' = None"
    by (simp_all add: size_cmp_def split: option.splits)
  have e: "sortSizes [''constructor'', ''M''] = Engine_Defined"
    by (rule sortSizes_inherited [of "''constructor''"]) (simp_all add: Object_prototype_names_def)
  from c have s: "sort_by size_cmp [''constructor'', ''M''] = [''constructor'', ''M'']"
    by (simp add: sort_by_def sort_compare_def)
  from t r c e s show ?thesis by blast
qed

section \<open>The fold of the low-value import\<close>

lemma map_of_step:
  "map_of (step N cat g r) k =
     (if has_style r \<and> group_key r = k
      then Some (merge_row N cat
                  (case map_of g k of
                     None \<Rightarrow> new_group N (trim (Style r)) (trim (Color r))
                   | Some d \<Rightarrow> d) r)
      else map_of g k)"
  by (simp add: step_def Let_def update_conv')

lemma distinct_step: "distinct (map fst g) \<Longrightarrow> distinct (map fst (step N cat g r))"
  by (simp add: step_def Let_def distinct_update)

lemma distinct_foldl_step:
  "distinct (map fst g) \<Longrightarrow> distinct (map fst (foldl (step N cat) g rows))"
  by (induction rows arbitrary: g) (simp_all add: distinct_step)

lemma distinct_rollup: "distinct (map fst (rollup N cat rows))"
  by (simp add: rollup_def distinct_foldl_step)

lemma map_of_foldl_step:
  "map_of (foldl (step N cat) g rows) k =
     (case group_rows k rows of
        [] \<Rightarrow> map_of g k
      | r # rs \<Rightarrow>
          Some (foldl (merge_row N cat)
                 (case map_of g k of
                    None \<Rightarrow> new_group N (trim (Style r)) (trim (Color r))
                  | Some d \<Rightarrow> d) (r # rs)))"
proof (induction rows arbitrary: g)
  case Nil
  then show ?case by (simp add: group_rows_def)
next
  case (Cons x xs)
  show ?case
  proof (cases "has_style x \<and> group_key x = k")
    case True
    then have gr: "group_rows k (x # xs) = x # group_rows k xs"
      by (simp add: group_rows_def)
    show ?thesis
      using True by (simp add: Cons.IH gr map_of_step split: list.split)
  next
    case False
    then have gr: "group_rows k (x # xs) = group_rows k xs"
      by (auto simp: group_rows_def)
    show ?thesis
      using False by (auto simp: Cons.IH gr map_of_step split: list.split)
  qed
qed

text \<open>
  Every group of the result is the fold of \<open>merge_row\<close> over the rows with its key, in input
  order, from a new group with the trimmed style and colour of the first of them.
\<close>

lemma rollup_group:
  assumes "(k, d) \<in> set (rollup N cat rows)"
  obtains r rs where "group_rows k rows = r # rs"
    and "d = foldl (merge_row N cat) (new_group N (trim (Style r)) (trim (Color r))) (r # rs)"
proof -
  from assms have "map_of (rollup N cat rows) k = Some d"
    by (simp add: distinct_rollup)
  then show thesis
    using that by (auto simp: rollup_def map_of_foldl_step split: list.splits)
qed

lemma fst_set_step: "fst ` set (step N cat g r) = (if has_style r then {group_key r} else {}) \<union> fst ` set g"
  by (simp add: step_def Let_def dom_update)

lemma keys_foldl_step:
  "fst ` set (foldl (step N cat) g rows) = fst ` set g \<union> group_key ` {r \<in> set rows. has_style r}"
  by (induction rows arbitrary: g) (auto simp: fst_set_step)

lemma keys_rollup: "set (map fst (rollup N cat rows)) = set (map group_key (filter has_style rows))"
  by (auto simp: rollup_def keys_foldl_step)

lemma length_rollup:
  "length (rollup N cat rows) = length (remdups (map group_key (filter has_style rows)))"
proof -
  have "length (rollup N cat rows) = card (set (map fst (rollup N cat rows)))"
    using distinct_card [OF distinct_rollup, of N cat rows] by simp
  also have "\<dots> = card (set (map group_key (filter has_style rows)))"
    by (simp only: keys_rollup)
  also have "\<dots> = length (remdups (map group_key (filter has_style rows)))"
    by (simp add: length_remdups_card_conv)
  finally show ?thesis .
qed

lemmas eval_defs = rollup_def step_def has_style_def group_key_def trim_def is_space_def
  merge_row_def Let_def int_ops_def parse_age_def parseNum_def new_group_def or_else_def
  resolve_image_def strip_commas_def digit_val_def blank_row_def

lemma scenario_rollup:
  "rollup int_ops Map.empty scenario_rows = [(''ABC123|Black'', scenario_group)]"
  by (simp add: eval_defs scenario_rows_def scenario_group_def)

lemma scenario_group_rows: "group_rows ''ABC123|Black'' scenario_rows = scenario_rows"
  by (simp add: group_rows_def scenario_rows_def has_style_def group_key_def trim_def is_space_def blank_row_def)

lemma scenario_member: "(''ABC123|Black'', scenario_group) \<in> set (rollup int_ops Map.empty scenario_rows)"
  by (simp add: scenario_rollup)

section \<open>Grouping key\<close>

text \<open>
  The number of records the import reports is the number of distinct keys among the rows
  with a style.
\<close>

lemma records_count:
  "resp_records (fst (import_low_value N rows st))
     = length (remdups (map group_key (filter has_style rows)))"
  by (simp add: import_low_value_def Let_def length_rollup)

lemma takeWhile_bar:
  "CHR ''|'' \<notin> set s \<Longrightarrow> takeWhile (\<lambda>x. x \<noteq> CHR ''|'') (s @ CHR ''|'' # c) = s"
  by (induction s) auto

lemma key_split:
  assumes "CHR ''|'' \<notin> set s" "CHR ''|'' \<notin> set s'" "s @ CHR ''|'' # c = s' @ CHR ''|'' # c'"
  shows "s = s' \<and> c = c'"
proof -
  from assms(3) have "takeWhile (\<lambda>x. x \<noteq> CHR ''|'') (s @ CHR ''|'' # c)
      = takeWhile (\<lambda>x. x \<noteq> CHR ''|'') (s' @ CHR ''|'' # c')"
    by simp
  with assms(1,2) have "s = s'" by (simp add: takeWhile_bar)
  with assms(3) show ?thesis by simp
qed

text \<open>
  Where no trimmed style holds a \<^verbatim>\<open>|\<close>, the key determines the pair, and the number of
  groups is the number of distinct pairs of trimmed style and trimmed colour.
\<close>

lemma groups_are_pairs:
  assumes "\<forall>r\<in>set rows. CHR ''|'' \<notin> set (trim (Style r))"
  shows "length (rollup N catalogImages rows) = length (distinct_pairs rows)"
proof -
  let ?A = "set (filter has_style rows)"
  let ?p = "\<lambda>r. (trim (Style r), trim (Color r))"
  let ?f = "\<lambda>(s, c). s @ ''|'' @ c"
  have inj: "inj_on ?f (?p ` ?A)"
    using assms by (auto simp: inj_on_def dest!: key_split [rotated 2])
  have "group_key ` ?A = ?f ` (?p ` ?A)"
    by (auto simp: group_key_def image_iff)
  then have "card (group_key ` ?A) = card (?p ` ?A)"
    using card_image [OF inj] by simp
  then show ?thesis
    by (simp add: length_rollup distinct_pairs_def length_remdups_card_conv)
qed

text \<open>
  Claim C2 says that the number of groups, and of records inserted, is the number of distinct
  pairs of trimmed style and trimmed colour among the rows with a style. The key of a group
  is the style, a \<^verbatim>\<open>|\<close> and the colour in one string, so two pairs can share a key: the rows
  below have two distinct pairs and the import inserts one record.
\<close>

theorem grouping_key_collision:
  "resp_records (fst (import_low_value int_ops
      [blank_row \<lparr> Style := ''A|B'', Color := ''C'' \<rparr>,
       blank_row \<lparr> Style := ''A'', Color := ''B|C'' \<rparr>] empty_system)) = 1
   \<and> length (distinct_pairs
      [blank_row \<lparr> Style := ''A|B'', Color := ''C'' \<rparr>,
       blank_row \<lparr> Style := ''A'', Color := ''B|C'' \<rparr>]) = 2"
  by (simp add: eval_defs import_low_value_def empty_system_def distinct_pairs_def)

section \<open>Commodity\<close>

lemma commodity_foldl:
  "commodity (foldl (merge_row N cat) d rs) =
     (case filter (\<lambda>c. c \<noteq> []) (map (\<lambda>r. trim (Commodity r)) rs) of
        [] \<Rightarrow> commodity d
      | c # cs \<Rightarrow> last (c # cs))"
  by (induction rs arbitrary: d)
     (auto simp: merge_row_def Let_def or_else_def split: list.splits)

text \<open>
  Claim C1 says that the commodity of a group is the first non-blank trimmed Commodity of its
  rows and that no later row replaces it. Two rows of one group with the commodities
  \<^verbatim>\<open>Tops\<close> and \<^verbatim>\<open>Dresses\<close>, in this order: the first non-blank value is \<^verbatim>\<open>Tops\<close>, the
  group holds \<^verbatim>\<open>Dresses\<close>.
\<close>

theorem commodity_first_nonblank_counterexample:
  "map (commodity \<circ> snd)
     (rollup int_ops Map.empty
        [blank_row \<lparr> Style := ''S1'', Commodity := ''Tops'' \<rparr>,
         blank_row \<lparr> Style := ''S1'', Commodity := ''Dresses'' \<rparr>]) = [''Dresses'']
   \<and> first_nonblank (map (trim \<circ> Commodity)
        [blank_row \<lparr> Style := ''S1'', Commodity := ''Tops'' \<rparr>,
         blank_row \<lparr> Style := ''S1'', Commodity := ''Dresses'' \<rparr>]) = Some ''Tops''"
  by (simp add: eval_defs first_nonblank_def)

text \<open>
  Claim C1, as amended: the commodity of a group is the last non-blank trimmed Commodity
  among the rows of the group, in input order, and the empty string when every one is blank.
  So a later blank value never replaces it, and a later non-blank value does.
\<close>

theorem commodity_last_nonblank:
  assumes "(key, d) \<in> set (rollup N catalogImages rows)"
  shows "commodity d = last_nonblank (map (\<lambda>r. trim (Commodity r)) (group_rows key rows))"
proof -
  from assms obtain r rs where g: "group_rows key rows = r # rs"
    and d: "d = foldl (merge_row N catalogImages) (new_group N (trim (Style r)) (trim (Color r))) (r # rs)"
    by (rule rollup_group)
  have "commodity (new_group N (trim (Style r)) (trim (Color r))) = []"
    by (simp add: new_group_def)
  then show ?thesis
    unfolding d g last_nonblank_def commodity_foldl by (simp split: list.split)
qed

text \<open>
  Claim C1, as amended, on the three rows of the scenario: the commodities are blank,
  \<^verbatim>\<open>Tops\<close> and \<^verbatim>\<open>Dresses\<close>.
\<close>

theorem commodity_last_nonblank_witness:
  "(''ABC123|Black'', scenario_group) \<in> set (rollup int_ops Map.empty scenario_rows)
   \<and> commodity scenario_group = ''Dresses''
   \<and> last_nonblank (map (\<lambda>r. trim (Commodity r)) (group_rows ''ABC123|Black'' scenario_rows)) = ''Dresses''"
proof -
  have c: "commodity scenario_group = ''Dresses''"
    by (simp add: scenario_group_def)
  have "commodity scenario_group =
      last_nonblank (map (\<lambda>r. trim (Commodity r)) (group_rows ''ABC123|Black'' scenario_rows))"
    using scenario_member by (rule commodity_last_nonblank)
  with c scenario_member show ?thesis by simp
qed

section \<open>Sum fields\<close>

lemma total_remaining_foldl:
  "total_remaining (foldl (merge_row N cat) d rs) =
     foldl (num_add N) (total_remaining d) (map (\<lambda>r. parseNum N (Remaining_Stock r)) rs)"
  by (induction rs arbitrary: d) (simp_all add: merge_row_def Let_def)

lemma total_value_foldl:
  "total_value (foldl (merge_row N cat) d rs) =
     foldl (num_add N) (total_value d) (map (\<lambda>r. parseNum N (Remaining_Asset_Value r)) rs)"
  by (induction rs arbitrary: d) (simp_all add: merge_row_def Let_def)

lemma total_current_foldl:
  "total_current (foldl (merge_row N cat) d rs) =
     foldl (num_add N) (total_current d) (map (\<lambda>r. parseNum N (Current_Stock r)) rs)"
  by (induction rs arbitrary: d) (simp_all add: merge_row_def Let_def)

lemma total_committed_foldl:
  "total_committed (foldl (merge_row N cat) d rs) =
     foldl (num_add N) (total_committed d) (map (\<lambda>r. parseNum N (Committed_Stock r)) rs)"
  by (induction rs arbitrary: d) (simp_all add: merge_row_def Let_def)

text \<open>
  Claim C7: the four totals of a group are the sums, taken with the addition of Numbers in
  input order from 0, of the parsed \<^verbatim>\<open>Remaining_Stock\<close>, \<^verbatim>\<open>Remaining_Asset_Value\<close>,
  \<^verbatim>\<open>Current_Stock\<close> and \<^verbatim>\<open>Committed_Stock\<close> of the rows of the group; \<^verbatim>\<open>parseNum\<close> is 0 on a
  blank field and where \<^verbatim>\<open>parseFloat\<close> of the field without its commas is \<^verbatim>\<open>NaN\<close> (or 0),
  and is that \<^verbatim>\<open>parseFloat\<close> otherwise.
\<close>

theorem sum_fields:
  assumes "(key, d) \<in> set (rollup N catalogImages rows)"
  shows "total_remaining d =
           foldl (num_add N) (num_zero N) (map (\<lambda>r. parseNum N (Remaining_Stock r)) (group_rows key rows))
       \<and> total_value d =
           foldl (num_add N) (num_zero N) (map (\<lambda>r. parseNum N (Remaining_Asset_Value r)) (group_rows key rows))
       \<and> total_current d =
           foldl (num_add N) (num_zero N) (map (\<lambda>r. parseNum N (Current_Stock r)) (group_rows key rows))
       \<and> total_committed d =
           foldl (num_add N) (num_zero N) (map (\<lambda>r. parseNum N (Committed_Stock r)) (group_rows key rows))
       \<and> (\<forall>s. parseNum N s =
             (if s = [] \<or> \<not> truthy N (parseFloat N (filter (\<lambda>c. c \<noteq> CHR '','') s)) then num_zero N
              else parseFloat N (filter (\<lambda>c. c \<noteq> CHR '','') s)))"
proof -
  from assms obtain r rs where g: "group_rows key rows = r # rs"
    and d: "d = foldl (merge_row N catalogImages) (new_group N (trim (Style r)) (trim (Color r))) (r # rs)"
    by (rule rollup_group)
  let ?d0 = "new_group N (trim (Style r)) (trim (Color r))"
  have z: "total_remaining ?d0 = num_zero N" "total_value ?d0 = num_zero N"
    "total_current ?d0 = num_zero N" "total_committed ?d0 = num_zero N"
    by (simp_all add: new_group_def)
  have 1: "total_remaining d =
      foldl (num_add N) (num_zero N) (map (\<lambda>r. parseNum N (Remaining_Stock r)) (group_rows key rows))"
    unfolding d g total_remaining_foldl z ..
  have 2: "total_value d =
      foldl (num_add N) (num_zero N) (map (\<lambda>r. parseNum N (Remaining_Asset_Value r)) (group_rows key rows))"
    unfolding d g total_value_foldl z ..
  have 3: "total_current d =
      foldl (num_add N) (num_zero N) (map (\<lambda>r. parseNum N (Current_Stock r)) (group_rows key rows))"
    unfolding d g total_current_foldl z ..
  have 4: "total_committed d =
      foldl (num_add N) (num_zero N) (map (\<lambda>r. parseNum N (Committed_Stock r)) (group_rows key rows))"
    unfolding d g total_committed_foldl z ..
  have 5: "\<forall>s. parseNum N s =
             (if s = [] \<or> \<not> truthy N (parseFloat N (filter (\<lambda>c. c \<noteq> CHR '','') s)) then num_zero N
              else parseFloat N (filter (\<lambda>c. c \<noteq> CHR '','') s))"
    by (simp add: parseNum_def strip_commas_def Let_def)
  from 1 2 3 4 5 show ?thesis by blast
qed

text \<open>
  Claim C7 on the scenario: a field with a thousands separator, a blank field and a field
  that is not a number.
\<close>

theorem sum_fields_witness:
  "(''ABC123|Black'', scenario_group) \<in> set (rollup int_ops Map.empty scenario_rows)
   \<and> total_remaining scenario_group = Some 15
   \<and> map (\<lambda>r. parseNum int_ops (Remaining_Stock r)) (group_rows ''ABC123|Black'' scenario_rows)
       = [Some 10, Some 5, Some 0]
   \<and> total_current scenario_group = Some 1500
   \<and> map (\<lambda>r. parseNum int_ops (Current_Stock r)) (group_rows ''ABC123|Black'' scenario_rows)
       = [Some 1200, Some 300, Some 0]
   \<and> total_committed scenario_group = Some 2
   \<and> map (\<lambda>r. parseNum int_ops (Committed_Stock r)) (group_rows ''ABC123|Black'' scenario_rows)
       = [Some 0, Some 2, Some 0]
   \<and> parseNum int_ops ''abc'' = Some 0"
proof -
  have p: "map (\<lambda>r. parseNum int_ops (Remaining_Stock r)) scenario_rows = [Some 10, Some 5, Some 0]"
    "map (\<lambda>r. parseNum int_ops (Current_Stock r)) scenario_rows = [Some 1200, Some 300, Some 0]"
    "map (\<lambda>r. parseNum int_ops (Committed_Stock r)) scenario_rows = [Some 0, Some 2, Some 0]"
    "parseNum int_ops ''abc'' = Some 0"
    by (simp_all add: scenario_rows_def eval_defs)
  note t = sum_fields [OF scenario_member, unfolded scenario_group_rows p]
  have "total_remaining scenario_group = Some 15" "total_current scenario_group = Some 1500"
    "total_committed scenario_group = Some 2"
    using t by (simp_all add: int_ops_def)
  with p scenario_member show ?thesis by (simp add: scenario_group_rows)
qed

section \<open>Age, bracket and date\<close>

lemma trio_merge_row:
  "trio (merge_row N cat d r) = (if age_days d < row_age N r then row_trio N r else trio d)"
  by (simp add: merge_row_def Let_def trio_def row_trio_def row_age_def)

lemma age_days_merge_row:
  "age_days (merge_row N cat d r) = (if age_days d < row_age N r then row_age N r else age_days d)"
  by (simp add: merge_row_def Let_def row_age_def)

lemma trio_foldl:
  "(\<forall>r\<in>set rs. row_age N r \<le> age_days d) \<and> trio (foldl (merge_row N cat) d rs) = trio d
   \<or> (\<exists>ys r zs. rs = ys @ r # zs \<and> age_days d < row_age N r
         \<and> (\<forall>y\<in>set ys. row_age N y < row_age N r)
         \<and> (\<forall>z\<in>set zs. row_age N z \<le> row_age N r)
         \<and> trio (foldl (merge_row N cat) d rs) = row_trio N r)"
proof (induction rs arbitrary: d)
  case Nil
  then show ?case by simp
next
  case (Cons x xs)
  let ?d1 = "merge_row N cat d x"
  let ?res = "foldl (merge_row N cat) ?d1 xs"
  from Cons.IH [of ?d1] consider
      (keep) "\<forall>r\<in>set xs. row_age N r \<le> age_days ?d1" "trio ?res = trio ?d1"
    | (later) ys r zs where "xs = ys @ r # zs" "age_days ?d1 < row_age N r"
        "\<forall>y\<in>set ys. row_age N y < row_age N r" "\<forall>z\<in>set zs. row_age N z \<le> row_age N r"
        "trio ?res = row_trio N r"
    by blast
  then show ?case
  proof cases
    case keep
    show ?thesis
    proof (cases "age_days d < row_age N x")
      case True
      with keep have "x # xs = [] @ x # xs" "\<forall>z\<in>set xs. row_age N z \<le> row_age N x"
        "trio (foldl (merge_row N cat) d (x # xs)) = row_trio N x"
        by (simp_all add: age_days_merge_row trio_merge_row)
      with True show ?thesis by (intro disjI2 exI [of _ "[]"] exI [of _ x] exI [of _ xs]) simp
    next
      case False
      with keep show ?thesis
        by (intro disjI1) (simp add: age_days_merge_row trio_merge_row)
    qed
  next
    case later
    have d1: "age_days d \<le> age_days ?d1" "row_age N x \<le> age_days ?d1"
      by (simp_all add: age_days_merge_row)
    with later have "x # xs = (x # ys) @ r # zs" "age_days d < row_age N r"
      "\<forall>y\<in>set (x # ys). row_age N y < row_age N r"
      by auto
    with later show ?thesis
      by (intro disjI2 exI [of _ "x # ys"] exI [of _ r] exI [of _ zs]) simp
  qed
qed

lemma find_first:
  "\<forall>y\<in>set ys. \<not> P y \<Longrightarrow> P r \<Longrightarrow> find P (ys @ r # zs) = Some r"
  by (induction ys) simp_all

lemma oldest_row_split:
  assumes "\<forall>y\<in>set ys. row_age N y < row_age N r" "\<forall>z\<in>set zs. row_age N z \<le> row_age N r"
  shows "oldest_row N (ys @ r # zs) = Some r"
  unfolding oldest_row_def
proof (rule find_first)
  show "\<forall>y\<in>set ys. \<not> (\<forall>r'\<in>set (ys @ r # zs). row_age N r' \<le> row_age N y)"
    using assms by (auto simp: not_le)
  show "\<forall>r'\<in>set (ys @ r # zs). row_age N r' \<le> row_age N r"
    using assms by (auto simp: less_imp_le)
qed

lemma oldest_row_exists:
  assumes "rs \<noteq> []"
  obtains r where "oldest_row N rs = Some r" "r \<in> set rs"
proof -
  let ?A = "row_age N ` set rs"
  have "Max ?A \<in> ?A" using assms by (intro Max_in) auto
  then obtain m where m: "m \<in> set rs" "row_age N m = Max ?A" by auto
  have "\<forall>r'\<in>set rs. row_age N r' \<le> row_age N m"
    using m by (simp add: Max_ge)
  with m have "oldest_row N rs \<noteq> None"
    by (auto simp: oldest_row_def find_None_iff)
  then obtain r where r: "oldest_row N rs = Some r" by auto
  then have "r \<in> set rs"
    by (auto simp: oldest_row_def find_Some_iff)
  with r show thesis by (rule that)
qed

lemma trio_new_group: "trio (new_group N st co) = (0, [], [])" "age_days (new_group N st co) = 0"
  by (simp_all add: trio_def new_group_def)

text \<open>
  Claim C3 says that the age, the bracket and the date of a group come from the first row
  that reaches the greatest parsed age. A group of one row of age 0: that row is the first
  one that reaches the greatest age, and the group keeps the initial age 0 with an empty
  bracket and an empty date, since 0 is not greater than the initial age.
\<close>

theorem max_age_trio_counterexample:
  "map (trio \<circ> snd)
     (rollup int_ops Map.empty
        [blank_row \<lparr> Style := ''S1'', Inventory_Age := ''0'', Age_Bracket := ''0-30 days'',
                     Trsc_Date := ''2024-01-01'' \<rparr>]) = [(0, [], [])]
   \<and> oldest_row int_ops
        [blank_row \<lparr> Style := ''S1'', Inventory_Age := ''0'', Age_Bracket := ''0-30 days'',
                     Trsc_Date := ''2024-01-01'' \<rparr>]
      = Some (blank_row \<lparr> Style := ''S1'', Inventory_Age := ''0'', Age_Bracket := ''0-30 days'',
                     Trsc_Date := ''2024-01-01'' \<rparr>)
   \<and> row_trio int_ops
        (blank_row \<lparr> Style := ''S1'', Inventory_Age := ''0'', Age_Bracket := ''0-30 days'',
                     Trsc_Date := ''2024-01-01'' \<rparr>) = (0, ''0-30 days'', ''2024-01-01'')"
  by (simp add: eval_defs trio_def oldest_row_def row_trio_def row_age_def)

text \<open>
  Claim C3, as amended: the age, the bracket and the date of a group change together, and
  only on a row whose parsed age is strictly greater than the age the group holds, which
  is 0 at first. So when the greatest parsed age among the rows of the group is positive,
  the three values are those of one row, the first row in input order that reaches this
  age; when no row has a positive age, the three values are the initial ones: 0 and two
  empty strings.
\<close>

theorem max_age_trio:
  assumes "(key, d) \<in> set (rollup N catalogImages rows)"
  shows "(\<exists>r. oldest_row N (group_rows key rows) = Some r
            \<and> (if 0 < row_age N r then trio d = row_trio N r else trio d = (0, [], [])))
       \<and> (\<forall>g r. trio (merge_row N catalogImages g r) =
                  (if age_days g < row_age N r then row_trio N r else trio g))"
proof -
  from assms obtain r0 rs where g: "group_rows key rows = r0 # rs"
    and d: "d = foldl (merge_row N catalogImages) (new_group N (trim (Style r0)) (trim (Color r0))) (r0 # rs)"
    by (rule rollup_group)
  let ?d0 = "new_group N (trim (Style r0)) (trim (Color r0))"
  from trio_foldl [of "r0 # rs" N ?d0 catalogImages] consider
      (none) "\<forall>r\<in>set (r0 # rs). row_age N r \<le> 0" "trio d = (0, [], [])"
    | (some) ys r zs where "r0 # rs = ys @ r # zs" "0 < row_age N r"
        "\<forall>y\<in>set ys. row_age N y < row_age N r" "\<forall>z\<in>set zs. row_age N z \<le> row_age N r"
        "trio d = row_trio N r"
    unfolding d [symmetric] trio_new_group by blast
  then have "\<exists>r. oldest_row N (group_rows key rows) = Some r
            \<and> (if 0 < row_age N r then trio d = row_trio N r else trio d = (0, [], []))"
  proof cases
    case none
    obtain r where r: "oldest_row N (r0 # rs) = Some r" "r \<in> set (r0 # rs)"
      by (rule oldest_row_exists [of "r0 # rs" N]) simp
    with none have "\<not> 0 < row_age N r" by (auto simp: not_less)
    with r none show ?thesis by (simp add: g)
  next
    case some
    then have "oldest_row N (r0 # rs) = Some r"
      by (simp add: oldest_row_split)
    with some show ?thesis by (simp add: g)
  qed
  then show ?thesis by (simp add: trio_merge_row)
qed

text \<open>
  Claim C3, as amended, on the scenario: the second and the third row share the greatest age
  430, and the three values are those of the second row.
\<close>

theorem max_age_trio_witness:
  "(''ABC123|Black'', scenario_group) \<in> set (rollup int_ops Map.empty scenario_rows)
   \<and> oldest_row int_ops (group_rows ''ABC123|Black'' scenario_rows) = Some (scenario_rows ! 1)
   \<and> 0 < row_age int_ops (scenario_rows ! 1)
   \<and> trio scenario_group = row_trio int_ops (scenario_rows ! 1)"
proof -
  have o: "oldest_row int_ops (group_rows ''ABC123|Black'' scenario_rows) = Some (scenario_rows ! 1)"
    unfolding scenario_group_rows
    by (simp add: oldest_row_def row_age_def scenario_rows_def eval_defs)
  have a: "0 < row_age int_ops (scenario_rows ! 1)"
    by (simp add: row_age_def scenario_rows_def eval_defs)
  from max_age_trio [OF scenario_member] o a
  have "trio scenario_group = row_trio int_ops (scenario_rows ! 1)" by simp
  with scenario_member o a show ?thesis by blast
qed

section \<open>Image of a group\<close>

lemma image_url_foldl:
  assumes "\<forall>r\<in>set rs. trim (Style r) = st"
  shows "image_url (foldl (merge_row N cat) d rs) =
     (case filter (\<lambda>c. c \<noteq> []) (map (\<lambda>r. trim (CAD_Link r)) rs) of
        [] \<Rightarrow> if rs = [] \<or> image_url d \<noteq> [] then image_url d
              else (case cat st of None \<Rightarrow> [] | Some u \<Rightarrow> u)
      | c # cs \<Rightarrow> last (c # cs))"
  using assms
proof (induction rs arbitrary: d)
  case Nil
  then show ?case by simp
next
  case (Cons x xs)
  have img: "image_url (merge_row N cat d x) = resolve_image cat st (trim (CAD_Link x)) (image_url d)"
    using Cons.prems by (simp add: merge_row_def Let_def)
  from Cons.prems have "\<forall>r\<in>set xs. trim (Style r) = st" by simp
  from Cons.IH [OF this, of "merge_row N cat d x"] show ?case
    by (auto simp: img resolve_image_def split: list.splits option.splits)
qed

text \<open>
  The image of a group all of whose rows carry the style of the group, where this style
  names no inherited member: the last non-blank trimmed link of its rows; with no such
  link, the catalog entry of the style; with no entry, the empty string.
\<close>

lemma image_url_resolution:
  assumes "(key, d) \<in> set (rollup N catalogImages rows)"
    and "\<forall>r\<in>set (group_rows key rows). trim (Style r) = style d"
    and "style d \<notin> set Object_prototype_names"
  shows "image_url d =
     (case filter (\<lambda>c. c \<noteq> []) (map (\<lambda>r. trim (CAD_Link r)) (group_rows key rows)) of
        [] \<Rightarrow> (case catalogImages (style d) of None \<Rightarrow> [] | Some u \<Rightarrow> u)
      | c # cs \<Rightarrow> last (c # cs))"
proof -
  from assms(1) obtain r rs where g: "group_rows key rows = r # rs"
    and d: "d = foldl (merge_row N catalogImages) (new_group N (trim (Style r)) (trim (Color r))) (r # rs)"
    by (rule rollup_group)
  have i: "image_url (new_group N (trim (Style r)) (trim (Color r))) = []"
    by (simp add: new_group_def)
  from assms(2) have "\<forall>x\<in>set (r # rs). trim (Style x) = style d"
    by (simp only: g)
  from image_url_foldl [OF this, of N catalogImages "new_group N (trim (Style r)) (trim (Color r))"]
  show ?thesis
    unfolding g d [symmetric] i by simp
qed

text \<open>
  Claim C4 says that the image of a group with no link in its rows is the catalog entry of the
  style of the group, and the empty string when there is none. The lookup is made with the
  style of the row at hand. Where two rows with different styles share a key, the group
  holds the style of the first row and can take the catalog entry of the second: below the
  catalog has an entry for \<^verbatim>\<open>A\<close> only, the group has the style \<^verbatim>\<open>A|B\<close> and the image of
  \<^verbatim>\<open>A\<close>.
\<close>

theorem image_lookup_by_row_style:
  "map (\<lambda>(k, d). (style d, image_url d))
     (rollup int_ops [''A'' \<mapsto> ''http://b/2.jpg'']
        [blank_row \<lparr> Style := ''A|B'', Color := ''C'' \<rparr>,
         blank_row \<lparr> Style := ''A'', Color := ''B|C'' \<rparr>]) = [(''A|B'', ''http://b/2.jpg'')]
   \<and> [''A'' \<mapsto> ''http://b/2.jpg''] ''A|B'' = None"
  by (simp add: eval_defs)

section \<open>Blank size tokens\<close>

lemma sizes_foldl:
  "sizes (foldl (merge_row N cat) d rs) = sizes d @ map (\<lambda>r. trim (Size r)) rs"
  by (induction rs arbitrary: d) (simp_all add: merge_row_def Let_def)

lemma trim_empty_iff: "trim s = [] \<longleftrightarrow> (\<forall>c\<in>set s. is_space c)"
proof
  assume "trim s = []"
  then have *: "\<forall>c\<in>set (dropWhile is_space s). is_space c"
    by (simp add: trim_def)
  have "dropWhile is_space s = []"
  proof (rule ccontr)
    assume ne: "dropWhile is_space s \<noteq> []"
    then have "\<not> is_space (hd (dropWhile is_space s))" by (rule hd_dropWhile)
    moreover have "hd (dropWhile is_space s) \<in> set (dropWhile is_space s)"
      using ne by simp
    ultimately show False using * by blast
  qed
  then show "\<forall>c\<in>set s. is_space c" by simp
next
  assume "\<forall>c\<in>set s. is_space c"
  then show "trim s = []" by (auto simp: trim_def dest: set_dropWhileD)
qed

lemma count_list_distinct: "distinct xs \<Longrightarrow> a \<in> set xs \<Longrightarrow> count_list xs a = 1"
  by (induction xs) auto

text \<open>
  A group with a row whose \<^verbatim>\<open>Size\<close> is blank or made of white space only, and with no size
  token that names an inherited member: the resolved sizes are fixed and hold the empty
  token exactly once; the empty token has the rank 9 of the unknown tokens, and stands
  after every known size.
\<close>

lemma blank_size_token_plain:
  assumes "(key, d) \<in> set (rollup N catalogImages rows)"
    and "r \<in> set (group_rows key rows)"
    and "\<forall>c\<in>set (Size r). is_space c"
    and "\<forall>x\<in>set (group_rows key rows). trim (Size x) \<notin> set Object_prototype_names"
  shows "\<exists>ys. sortSizes (sizes d) = Fixed ys
           \<and> count_list ys [] = 1
           \<and> table_rank [] = 9
           \<and> (\<exists>ks us. ys = ks @ us
                 \<and> (\<forall>a\<in>set ks. table_rank a < 9) \<and> (\<forall>a\<in>set us. table_rank a = 9)
                 \<and> [] \<in> set us)"
proof -
  from assms(1) obtain r0 rs where g: "group_rows key rows = r0 # rs"
    and d: "d = foldl (merge_row N catalogImages) (new_group N (trim (Style r0)) (trim (Color r0))) (r0 # rs)"
    by (rule rollup_group)
  have "sizes (new_group N (trim (Style r0)) (trim (Color r0))) = []"
    by (simp add: new_group_def)
  then have sz: "sizes d = map (\<lambda>r. trim (Size r)) (group_rows key rows)"
    unfolding d g sizes_foldl by simp
  from assms(3) have "trim (Size r) = []" by (simp add: trim_empty_iff)
  with assms(2) have mem: "[] \<in> set (sizes d)"
    unfolding sz by force
  from assms(4) have plain: "\<forall>a\<in>set (sizes d). a \<notin> set Object_prototype_names"
    unfolding sz by simp
  let ?ys = "sort_key table_rank (new_Set (sizes d))"
  have fixed: "sortSizes (sizes d) = Fixed ?ys" using plain by (rule sortSizes_plain)
  have dist: "distinct ?ys" and mem': "[] \<in> set ?ys"
    using mem by (simp_all add: distinct_new_Set set_new_Set)
  have r9: "table_rank [] = 9"
    by (simp add: table_rank_def SIZE_ORDER_def)
  have 1: "count_list ?ys [] = 1"
    using dist mem' by (rule count_list_distinct)
  let ?ks = "filter (\<lambda>a. table_rank a < 9) ?ys"
  let ?us = "filter (\<lambda>a. table_rank a = 9) ?ys"
  have "(\<lambda>a. \<not> table_rank a < 9) = (\<lambda>a. table_rank a = 9)"
    using table_rank_le by (auto simp: fun_eq_iff le_less)
  moreover have "sorted (map table_rank ?ys)" by simp
  ultimately have "?ys = ?ks @ ?us"
    using sorted_split [of table_rank ?ys 9] by simp
  moreover have "\<forall>a\<in>set ?ks. table_rank a < 9" "\<forall>a\<in>set ?us. table_rank a = 9" by simp_all
  moreover have "[] \<in> set ?us" using mem' r9 by simp
  ultimately have "\<exists>ks us. ?ys = ks @ us
             \<and> (\<forall>a\<in>set ks. table_rank a < 9) \<and> (\<forall>a\<in>set us. table_rank a = 9)
             \<and> [] \<in> set us"
    by blast
  with fixed 1 r9 show ?thesis by blast
qed

lemma scenario_sizes: "sortSizes (sizes scenario_group) = Fixed [''M'', ''L'', []]"
proof -
  have "\<forall>a\<in>set (sizes scenario_group). a \<notin> set Object_prototype_names"
    by (simp add: scenario_group_def Object_prototype_names_def)
  then have "sortSizes (sizes scenario_group)
      = Fixed (sort_key table_rank (new_Set (sizes scenario_group)))"
    by (rule sortSizes_plain)
  then show ?thesis
    by (simp add: scenario_group_def new_Set_def set_add_def table_rank_def SIZE_ORDER_def)
qed

text \<open>
  Claim C10 says that in every group with a blank \<^verbatim>\<open>Size\<close> the empty token stands after all
  the known sizes. Three rows of one group with the sizes of one space, \<^verbatim>\<open>constructor\<close> and
  \<^verbatim>\<open>M\<close>: the tokens are the empty one, \<^verbatim>\<open>constructor\<close> and \<^verbatim>\<open>M\<close>. The comparator is \<^verbatim>\<open>NaN\<close>
  on \<^verbatim>\<open>constructor\<close> and 7 on the empty token and \<^verbatim>\<open>M\<close>, so it is no consistent comparison
  function and the language fixes no order; a stable sort that reads \<^verbatim>\<open>NaN\<close> as 0 leaves
  the list as it is, the empty token before the known size \<^verbatim>\<open>M\<close>.
\<close>

theorem blank_size_inherited_member:
  "map (sizes \<circ> snd)
     (rollup int_ops Map.empty
        [blank_row \<lparr> Style := ''S1'', Size := '' '' \<rparr>,
         blank_row \<lparr> Style := ''S1'', Size := ''constructor'' \<rparr>,
         blank_row \<lparr> Style := ''S1'', Size := ''M'' \<rparr>]) = [[[], ''constructor'', ''M'']]
   \<and> size_cmp [] ''constructor'' = None
   \<and> size_cmp ''constructor'' ''M'' = None
   \<and> size_cmp [] ''M'' = Some 7
   \<and> sortSizes [[], ''constructor'', ''M''] = Engine_Defined
   \<and> sort_by size_cmp [[], ''constructor'', ''M''] = [[], ''constructor'', ''M'']"
proof -
  have g: "map (sizes \<circ> snd)
     (rollup int_ops Map.empty
        [blank_row \<lparr> Style := ''S1'', Size := '' '' \<rparr>,
         blank_row \<lparr> Style := ''S1'', Size := ''constructor'' \<rparr>,
         blank_row \<lparr> Style := ''S1'', Size := ''M'' \<rparr>]) = [[[], ''constructor'', ''M'']]"
    by (simp add: eval_defs)
  have r: "size_rank ''constructor'' = None"
    by (rule size_rank_inherited) (simp add: Object_prototype_names_def)
  have k: "size_rank [] = Some 9" "size_rank ''M'' = Some 2"
    by (simp_all add: size_rank_def SIZE_ORDER_def Object_prototype_names_def)
  from r k have c: "size_cmp [] ''constructor'' = None" "size_cmp ''constructor'' ''M'' = None"
    "size_cmp [] ''M'' = Some 7"
    by (simp_all add: size_cmp_def)
  have e: "sortSizes [[], ''constructor'', ''M''] = Engine_Defined"
    by (rule sortSizes_inherited [of "''constructor''"]) (simp_all add: Object_prototype_names_def)
  from c have s: "sort_by size_cmp [[], ''constructor'', ''M''] = [[], ''constructor'', ''M'']"
    by (simp add: sort_by_def sort_compare_def)
  from g c e s show ?thesis by blast
qed

section \<open>Backfill\<close>

lemma backfill_row_idem: "backfill_row ci (backfill_row ci a) = backfill_row ci a"
  by (simp add: backfill_row_def is_blank_def split: option.splits)

lemma backfill_idem: "backfill (backfill st) = backfill st"
  by (simp add: backfill_def backfill_row_idem)

text \<open>
  Claim C6: the backfill changes nothing but the image of a persisted aggregate; it sets the
  image of an aggregate whose image is blank (null or empty) to the catalog entry of its
  style when there is one, and leaves every other aggregate as it is; so an image that is
  not blank is never changed; and a second backfill on the same catalog gives the state the
  first one gave.
\<close>

theorem backfill_monotone:
  "catalog_images (backfill st) = catalog_images st
   \<and> length (aged_inventory (backfill st)) = length (aged_inventory st)
   \<and> (\<forall>i < length (aged_inventory st).
        aged_inventory (backfill st) ! i =
          (if is_blank (ai_image_url (aged_inventory st ! i))
           then (case catalog_images st (ai_style (aged_inventory st ! i)) of
                   None \<Rightarrow> aged_inventory st ! i
                 | Some u \<Rightarrow> (aged_inventory st ! i) \<lparr> ai_image_url := Some u \<rparr>)
           else aged_inventory st ! i))
   \<and> (\<forall>i < length (aged_inventory st).
        \<not> is_blank (ai_image_url (aged_inventory st ! i)) \<longrightarrow>
        ai_image_url (aged_inventory (backfill st) ! i) = ai_image_url (aged_inventory st ! i))
   \<and> (\<forall>u. is_blank u \<longleftrightarrow> u = None \<or> u = Some [])
   \<and> backfill (backfill st) = backfill st"
proof -
  have 1: "catalog_images (backfill st) = catalog_images st"
    and 2: "length (aged_inventory (backfill st)) = length (aged_inventory st)"
    by (simp_all add: backfill_def)
  have 3: "\<forall>i < length (aged_inventory st).
        aged_inventory (backfill st) ! i =
          (if is_blank (ai_image_url (aged_inventory st ! i))
           then (case catalog_images st (ai_style (aged_inventory st ! i)) of
                   None \<Rightarrow> aged_inventory st ! i
                 | Some u \<Rightarrow> (aged_inventory st ! i) \<lparr> ai_image_url := Some u \<rparr>)
           else aged_inventory st ! i)"
    by (simp add: backfill_def backfill_row_def)
  have 4: "\<forall>i < length (aged_inventory st).
        \<not> is_blank (ai_image_url (aged_inventory st ! i)) \<longrightarrow>
        ai_image_url (aged_inventory (backfill st) ! i) = ai_image_url (aged_inventory st ! i)"
    by (simp add: backfill_def backfill_row_def)
  have 5: "\<forall>u. is_blank u \<longleftrightarrow> u = None \<or> u = Some []"
    by (simp add: is_blank_def split: option.splits)
  from 1 2 3 4 5 backfill_idem [of st] show ?thesis by blast
qed

text \<open>
  Claim C6 on a table of three aggregates: one without an image and with a catalog entry,
  one with an image, one without an image and without an entry.
\<close>

theorem backfill_monotone_witness:
  "map ai_image_url (aged_inventory (backfill example_system))
     = [Some ''http://b/2.jpg'', Some ''http://a/1.jpg'', Some []]
   \<and> (1::nat) < length (aged_inventory example_system)
   \<and> \<not> is_blank (ai_image_url (aged_inventory example_system ! 1))
   \<and> ai_image_url (aged_inventory (backfill example_system) ! 1)
       = ai_image_url (aged_inventory example_system ! 1)
   \<and> backfill (backfill example_system) = backfill example_system"
proof -
  note t = backfill_monotone [of example_system]
  have l: "(1::nat) < length (aged_inventory example_system)"
    by (simp add: example_system_def)
  have b: "\<not> is_blank (ai_image_url (aged_inventory example_system ! 1))"
    by (simp add: example_system_def example_aged_def is_blank_def)
  from t l b have k: "ai_image_url (aged_inventory (backfill example_system) ! 1)
       = ai_image_url (aged_inventory example_system ! 1)"
    by blast
  from t have i: "backfill (backfill example_system) = backfill example_system"
    by blast
  have e: "map ai_image_url (aged_inventory (backfill example_system))
     = [Some ''http://b/2.jpg'', Some ''http://a/1.jpg'', Some []]"
    by (simp add: example_system_def example_aged_def backfill_def backfill_row_def is_blank_def)
  from e l b k i show ?thesis by blast
qed

section \<open>Catalog synchronisation: properties\<close>

text \<open>
  A synchronisation that reads at least one product ends with the backfill.
\<close>

lemma sync_uses_backfill:
  "rows \<noteq> [] \<Longrightarrow> \<exists>st1 n. snd (syncCatalogImages (Some (Done rows)) st) = say (Log_Synced n) (backfill st1)"
  by (auto simp: syncCatalogImages_def sync_body_def Let_def split: prod.splits)

text \<open>
  Claim C9: when the catalog database is not configured, or the read of its products
  raises, \<^verbatim>\<open>syncCatalogImages\<close> returns normally, writes to the log, and leaves the catalog
  cache and the persisted aggregates as they were.
\<close>

theorem sync_unavailable:
  assumes "catalogPool = None \<or> catalogPool = Some (Raised msg)"
  shows "fst (syncCatalogImages catalogPool st) = Done ()
       \<and> catalog_images (snd (syncCatalogImages catalogPool st)) = catalog_images st
       \<and> aged_inventory (snd (syncCatalogImages catalogPool st)) = aged_inventory st
       \<and> console (snd (syncCatalogImages catalogPool st)) =
           console st @ (if catalogPool = None then [Log_No_Catalog_Url]
                         else [Log_Syncing, Log_Sync_Error msg])"
  using assms by (auto simp: syncCatalogImages_def sync_body_def say_def Let_def)

text \<open>
  Claim C9 on a system with one cache entry, for a read that raises.
\<close>

theorem sync_unavailable_witness:
  "fst (syncCatalogImages (Some (Raised ''connection refused'')) example_system) = Done ()
   \<and> catalog_images (snd (syncCatalogImages (Some (Raised ''connection refused'')) example_system))
       = catalog_images example_system
   \<and> aged_inventory (snd (syncCatalogImages (Some (Raised ''connection refused'')) example_system))
       = aged_inventory example_system
   \<and> console (snd (syncCatalogImages (Some (Raised ''connection refused'')) example_system))
       = [Log_Syncing, Log_Sync_Error ''connection refused'']
   \<and> fst (syncCatalogImages None example_system) = Done ()
   \<and> catalog_images (snd (syncCatalogImages None example_system)) = catalog_images example_system
   \<and> aged_inventory (snd (syncCatalogImages None example_system)) = aged_inventory example_system"
proof -
  have c: "console example_system = []" by (simp add: example_system_def)
  have "(Some (Raised ''connection refused'') :: product list attempt option) = None
      \<or> Some (Raised ''connection refused'') = Some (Raised ''connection refused'')"
    by simp
  note a = sync_unavailable [OF this, of example_system]
  have "(None :: product list attempt option) = None \<or> None = Some (Raised [])"
    by simp
  note b = sync_unavailable [OF this, of example_system]
  from a b c show ?thesis by simp
qed

section \<open>Credential cache: properties\<close>

lemma returned_Done: "\<exists>v. returned (getZohoAccessToken out c) = Done v"
  by (simp add: getZohoAccessToken_def Let_def split: attempt.splits)

lemma cached_token:
  assumes "cache_valid c (now_at_check out)"
  shows "getZohoAccessToken out c =
           \<lparr> returned = Done (zohoAccessToken c), cache = c, calls = [], logged = [] \<rparr>
         \<and> is_set (zohoAccessToken c)"
  using assms by (simp add: getZohoAccessToken_def cache_valid_def)

lemma refresh_body_raised:
  assumes "lookup_refresh_token out = Raised msg"
  shows "refresh_body out c =
           \<lparr> returned = Raised msg, cache = c, calls = [Token_Query], logged = [] \<rparr>"
  using assms by (simp add: refresh_body_def)

lemma refresh_body_no_credentials:
  assumes "lookup_refresh_token out = Done (r, qs)"
    and "\<not> is_set r \<or> \<not> is_set (ZOHO_CLIENT_ID out) \<or> \<not> is_set (ZOHO_CLIENT_SECRET out)"
  shows "refresh_body out c =
           \<lparr> returned = Done None, cache = c, calls = qs, logged = [Log_Missing_Credentials] \<rparr>"
proof (cases r)
  case None
  with assms(1) show ?thesis by (simp add: refresh_body_def)
next
  case r: (Some rt)
  show ?thesis
  proof (cases "ZOHO_CLIENT_ID out")
    case None
    with assms(1) r show ?thesis by (simp add: refresh_body_def)
  next
    case cid: (Some cid)
    show ?thesis
    proof (cases "ZOHO_CLIENT_SECRET out")
      case None
      with assms(1) r cid show ?thesis by (simp add: refresh_body_def)
    next
      case (Some secret)
      with assms r cid show ?thesis by (simp add: refresh_body_def is_set_def)
    qed
  qed
qed

lemma refresh_body_exchange:
  assumes "lookup_refresh_token out = Done (Some rt, qs)" "rt \<noteq> []"
    and "ZOHO_CLIENT_ID out = Some cid" "cid \<noteq> []"
    and "ZOHO_CLIENT_SECRET out = Some secret" "secret \<noteq> []"
  shows "refresh_body out c =
     (case issuer out of
        Raised msg \<Rightarrow>
          \<lparr> returned = Raised msg, cache = c, calls = qs @ [Token_Exchange rt cid secret],
            logged = [] \<rparr>
      | Done data \<Rightarrow>
          if is_set (access_token data)
          then \<lparr> returned = Done (access_token data),
                 cache = \<lparr> zohoAccessToken = access_token data,
                           tokenExpiry =
                             (case expires_in data of
                                None \<Rightarrow> None
                              | Some secs \<Rightarrow> Some (now_at_refresh out + (secs - 60) * 1000)) \<rparr>,
                 calls = qs @ [Token_Exchange rt cid secret], logged = [Log_Token_Refreshed] \<rparr>
          else \<lparr> returned = Done None, cache = c, calls = qs @ [Token_Exchange rt cid secret],
                 logged = [Log_Refresh_Failed] \<rparr>)"
  using assms by (simp add: refresh_body_def Let_def)

lemma lookup_calls:
  assumes "lookup_refresh_token out = Done (r, qs)"
  shows "qs = [] \<or> qs = [Token_Query]"
proof (cases "zoho_tokens out")
  case None
  with assms show ?thesis by (simp add: lookup_refresh_token_def)
next
  case (Some answer)
  with assms show ?thesis
    by (cases answer) (auto simp: lookup_refresh_token_def split: if_splits)
qed

lemma getZohoAccessToken_refresh:
  assumes "\<not> cache_valid c (now_at_check out)"
  shows "getZohoAccessToken out c =
     (case returned (refresh_body out c) of
        Raised msg \<Rightarrow> (refresh_body out c)
          \<lparr> returned := Done None, logged := logged (refresh_body out c) @ [Log_Token_Error msg] \<rparr>
      | Done v \<Rightarrow> refresh_body out c)"
  using assms by (simp add: getZohoAccessToken_def Let_def)

lemma refresh_success:
  assumes "\<not> cache_valid c (now_at_check out)"
    and "lookup_refresh_token out = Done (Some rt, qs)" "rt \<noteq> []"
    and "ZOHO_CLIENT_ID out = Some cid" "cid \<noteq> []"
    and "ZOHO_CLIENT_SECRET out = Some secret" "secret \<noteq> []"
    and "issuer out = Done data" "access_token data = Some tok" "tok \<noteq> []"
    and "expires_in data = Some secs"
  shows "returned (getZohoAccessToken out c) = Done (Some tok)
       \<and> cache (getZohoAccessToken out c) =
           \<lparr> zohoAccessToken = Some tok,
             tokenExpiry = Some (now_at_refresh out + (secs - 60) * 1000) \<rparr>
       \<and> calls (getZohoAccessToken out c) = qs @ [Token_Exchange rt cid secret]"
  unfolding getZohoAccessToken_refresh [OF assms(1)]
    refresh_body_exchange [OF assms(2) assms(3) assms(4) assms(5) assms(6) assms(7)]
  using assms by (simp add: is_set_def)

lemma credentials_missing:
  assumes "\<not> cache_valid c (now_at_check out)"
    and "(\<exists>msg. lookup_refresh_token out = Raised msg)
         \<or> (\<exists>r qs. lookup_refresh_token out = Done (r, qs) \<and> \<not> is_set r)
         \<or> \<not> is_set (ZOHO_CLIENT_ID out) \<or> \<not> is_set (ZOHO_CLIENT_SECRET out)"
  shows "returned (getZohoAccessToken out c) = Done None
       \<and> cache (getZohoAccessToken out c) = c
       \<and> (\<forall>rt cid s. Token_Exchange rt cid s \<notin> set (calls (getZohoAccessToken out c)))"
proof (cases "lookup_refresh_token out")
  case (Raised msg)
  show ?thesis
    unfolding getZohoAccessToken_refresh [OF assms(1)] refresh_body_raised [OF Raised]
    by simp
next
  case (Done p)
  obtain r qs where p: "p = (r, qs)" by (cases p)
  from Done p have l: "lookup_refresh_token out = Done (r, qs)" by simp
  from assms(2) l
  have "\<not> is_set r \<or> \<not> is_set (ZOHO_CLIENT_ID out) \<or> \<not> is_set (ZOHO_CLIENT_SECRET out)"
    by auto
  note b = refresh_body_no_credentials [OF l this]
  from lookup_calls [OF l] show ?thesis
    unfolding getZohoAccessToken_refresh [OF assms(1)] b by auto
qed

lemma issuer_failure:
  assumes "\<not> cache_valid c (now_at_check out)"
    and "(\<exists>msg. issuer out = Raised msg)
         \<or> (\<exists>data. issuer out = Done data \<and> \<not> is_set (access_token data))"
  shows "returned (getZohoAccessToken out c) = Done None
       \<and> cache (getZohoAccessToken out c) = c"
proof (cases "lookup_refresh_token out")
  case (Raised msg)
  show ?thesis
    unfolding getZohoAccessToken_refresh [OF assms(1)] refresh_body_raised [OF Raised]
    by simp
next
  case (Done p)
  obtain r qs where p: "p = (r, qs)" by (cases p)
  from Done p have l: "lookup_refresh_token out = Done (r, qs)" by simp
  show ?thesis
  proof (cases "is_set r \<and> is_set (ZOHO_CLIENT_ID out) \<and> is_set (ZOHO_CLIENT_SECRET out)")
    case False
    then have "\<not> is_set r \<or> \<not> is_set (ZOHO_CLIENT_ID out) \<or> \<not> is_set (ZOHO_CLIENT_SECRET out)"
      by simp
    note b = refresh_body_no_credentials [OF l this]
    show ?thesis
      unfolding getZohoAccessToken_refresh [OF assms(1)] b by simp
  next
    case True
    then obtain rt cid secret where v: "r = Some rt" "rt \<noteq> []"
      "ZOHO_CLIENT_ID out = Some cid" "cid \<noteq> []" "ZOHO_CLIENT_SECRET out = Some secret" "secret \<noteq> []"
      by (auto simp: is_set_def split: option.splits)
    from l v have l': "lookup_refresh_token out = Done (Some rt, qs)" by simp
    note b = refresh_body_exchange [OF l' v(2) v(3) v(4) v(5) v(6)]
    from assms(2) show ?thesis
      unfolding getZohoAccessToken_refresh [OF assms(1)] b by auto
  qed
qed

text \<open>
  Claim C8: with a cached token and a time before the stored expiry, \<^verbatim>\<open>getZohoAccessToken\<close>
  returns the cached token, makes no call and leaves the cache as it is. Otherwise, when a
  refresh token, a client id and a client secret are there and the issuer answers with an
  access token and a duration, the cache holds the new token with the expiry
  \<^verbatim>\<open>Date.now() + (duration - 60) * 1000\<close> milliseconds and the new token is returned, after
  one exchange. When the refresh token, the client id or the client secret is missing, or
  the issuer's answer is an error or has no access token, it returns \<^verbatim>\<open>null\<close> and leaves
  the cache as it is. It never raises.
\<close>

theorem getZohoAccessToken_contract:
  "(cache_valid c (now_at_check out) \<longrightarrow>
      getZohoAccessToken out c =
        \<lparr> returned = Done (zohoAccessToken c), cache = c, calls = [], logged = [] \<rparr>
      \<and> is_set (zohoAccessToken c))
   \<and> (\<not> cache_valid c (now_at_check out)
        \<and> lookup_refresh_token out = Done (Some rt, qs) \<and> rt \<noteq> []
        \<and> ZOHO_CLIENT_ID out = Some cid \<and> cid \<noteq> []
        \<and> ZOHO_CLIENT_SECRET out = Some secret \<and> secret \<noteq> []
        \<and> issuer out = Done data \<and> access_token data = Some tok \<and> tok \<noteq> []
        \<and> expires_in data = Some secs \<longrightarrow>
      returned (getZohoAccessToken out c) = Done (Some tok)
      \<and> cache (getZohoAccessToken out c) =
           \<lparr> zohoAccessToken = Some tok,
             tokenExpiry = Some (now_at_refresh out + (secs - 60) * 1000) \<rparr>
      \<and> calls (getZohoAccessToken out c) = qs @ [Token_Exchange rt cid secret])
   \<and> (\<not> cache_valid c (now_at_check out)
        \<and> ((\<exists>msg. lookup_refresh_token out = Raised msg)
           \<or> (\<exists>r qs. lookup_refresh_token out = Done (r, qs) \<and> \<not> is_set r)
           \<or> \<not> is_set (ZOHO_CLIENT_ID out) \<or> \<not> is_set (ZOHO_CLIENT_SECRET out)) \<longrightarrow>
      returned (getZohoAccessToken out c) = Done None
      \<and> cache (getZohoAccessToken out c) = c
      \<and> (\<forall>rt cid s. Token_Exchange rt cid s \<notin> set (calls (getZohoAccessToken out c))))
   \<and> (\<not> cache_valid c (now_at_check out)
        \<and> ((\<exists>msg. issuer out = Raised msg)
           \<or> (\<exists>data. issuer out = Done data \<and> \<not> is_set (access_token data))) \<longrightarrow>
      returned (getZohoAccessToken out c) = Done None
      \<and> cache (getZohoAccessToken out c) = c)
   \<and> (\<exists>v. returned (getZohoAccessToken out c) = Done v)"
proof (intro conjI impI)
  show "\<exists>v. returned (getZohoAccessToken out c) = Done v" by (rule returned_Done)
qed (use cached_token refresh_success credentials_missing issuer_failure in blast)+

text \<open>
  Claim C8 on four calls: a valid cache, a successful refresh, a missing client secret and
  an answer of the issuer without a token.
\<close>

theorem getZohoAccessToken_contract_witness:
  "cache_valid (example_cache \<lparr> tokenExpiry := Some 9000 \<rparr>) (now_at_check example_outside)
   \<and> getZohoAccessToken example_outside (example_cache \<lparr> tokenExpiry := Some 9000 \<rparr>) =
        \<lparr> returned = Done (Some ''tok1''), cache = example_cache \<lparr> tokenExpiry := Some 9000 \<rparr>,
          calls = [], logged = [] \<rparr>
   \<and> \<not> cache_valid example_cache (now_at_check example_outside)
   \<and> lookup_refresh_token example_outside = Done (Some ''refresh'', [Token_Query])
   \<and> returned (getZohoAccessToken example_outside example_cache) = Done (Some ''tok2'')
   \<and> cache (getZohoAccessToken example_outside example_cache) =
        \<lparr> zohoAccessToken = Some ''tok2'', tokenExpiry = Some 3545200 \<rparr>
   \<and> calls (getZohoAccessToken example_outside example_cache) =
        [Token_Query, Token_Exchange ''refresh'' ''id'' ''secret'']
   \<and> \<not> is_set (ZOHO_CLIENT_SECRET (example_outside \<lparr> ZOHO_CLIENT_SECRET := None \<rparr>))
   \<and> returned (getZohoAccessToken (example_outside \<lparr> ZOHO_CLIENT_SECRET := None \<rparr>) example_cache)
        = Done None
   \<and> cache (getZohoAccessToken (example_outside \<lparr> ZOHO_CLIENT_SECRET := None \<rparr>) example_cache)
        = example_cache
   \<and> \<not> is_set (access_token \<lparr> access_token = None, expires_in = None \<rparr>)
   \<and> returned (getZohoAccessToken
        (example_outside \<lparr> issuer := Done \<lparr> access_token = None, expires_in = None \<rparr> \<rparr>)
        example_cache) = Done None
   \<and> cache (getZohoAccessToken
        (example_outside \<lparr> issuer := Done \<lparr> access_token = None, expires_in = None \<rparr> \<rparr>)
        example_cache) = example_cache"
proof -
  let ?valid = "example_cache \<lparr> tokenExpiry := Some 9000 \<rparr>"
  let ?nosecret = "example_outside \<lparr> ZOHO_CLIENT_SECRET := None \<rparr>"
  let ?nodata = "\<lparr> access_token = None, expires_in = None \<rparr>"
  let ?notoken = "example_outside \<lparr> issuer := Done ?nodata \<rparr>"
  have v: "cache_valid ?valid (now_at_check example_outside)"
    by (simp add: cache_valid_def is_set_def example_cache_def example_outside_def)
  have z: "zohoAccessToken ?valid = Some ''tok1''"
    by (simp add: example_cache_def)
  have n: "\<not> cache_valid example_cache (now_at_check example_outside)"
    "\<not> cache_valid example_cache (now_at_check ?nosecret)"
    "\<not> cache_valid example_cache (now_at_check ?notoken)"
    by (simp_all add: cache_valid_def example_cache_def example_outside_def)
  have l: "lookup_refresh_token example_outside = Done (Some ''refresh'', [Token_Query])"
    by (simp add: lookup_refresh_token_def example_outside_def is_set_def)
  have e: "ZOHO_CLIENT_ID example_outside = Some ''id''"
    "ZOHO_CLIENT_SECRET example_outside = Some ''secret''"
    "issuer example_outside = Done \<lparr> access_token = Some ''tok2'', expires_in = Some 3600 \<rparr>"
    "now_at_refresh example_outside = 5200"
    by (simp_all add: example_outside_def)
  have s: "\<not> is_set (ZOHO_CLIENT_SECRET ?nosecret)"
    by (simp add: is_set_def)
  have i: "issuer ?notoken = Done ?nodata" "\<not> is_set (access_token ?nodata)"
    by (simp_all add: is_set_def)
  from getZohoAccessToken_contract [where c = "?valid" and out = example_outside] v z
  have 1: "getZohoAccessToken example_outside ?valid =
        \<lparr> returned = Done (Some ''tok1''), cache = ?valid, calls = [], logged = [] \<rparr>"
    by simp
  from getZohoAccessToken_contract [where c = example_cache and out = example_outside
      and rt = "''refresh''" and qs = "[Token_Query]" and cid = "''id''" and secret = "''secret''"
      and data = "\<lparr> access_token = Some ''tok2'', expires_in = Some 3600 \<rparr>"
      and tok = "''tok2''" and secs = 3600] n(1) l e
  have 2: "returned (getZohoAccessToken example_outside example_cache) = Done (Some ''tok2'')"
    "cache (getZohoAccessToken example_outside example_cache) =
        \<lparr> zohoAccessToken = Some ''tok2'', tokenExpiry = Some 3545200 \<rparr>"
    "calls (getZohoAccessToken example_outside example_cache) =
        [Token_Query, Token_Exchange ''refresh'' ''id'' ''secret'']"
    by simp_all
  from getZohoAccessToken_contract [where c = example_cache and out = "?nosecret"] n(2) s
  have 3: "returned (getZohoAccessToken ?nosecret example_cache) = Done None"
    "cache (getZohoAccessToken ?nosecret example_cache) = example_cache"
    by blast+
  from getZohoAccessToken_contract [where c = example_cache and out = "?notoken"] n(3) i
  have 4: "returned (getZohoAccessToken ?notoken example_cache) = Done None"
    "cache (getZohoAccessToken ?notoken example_cache) = example_cache"
    by blast+
  from v 1 n(1) l 2 s 3 i(2) 4 show ?thesis by blast
qed

end
